theory Spec2Isabelle
  imports Complex_Main "HOL-Library.Sublist"
begin

section \<open>Text\<close>

text \<open>
  Python \<open>str\<close> values are modelled as \<open>string\<close>, the UTF-8 bytes of the text. All
  keywords the program searches for are ASCII, and an ASCII byte never occurs inside a
  multi-byte UTF-8 sequence, so substring and prefix tests on the bytes agree with the
  tests on code points.
\<close>

abbreviation dq :: char where "dq \<equiv> CHR 0x22"
abbreviation sq :: char where "sq \<equiv> CHR 0x27"
abbreviation bs :: char where "bs \<equiv> CHR 0x5C"
abbreviation nl :: char where "nl \<equiv> CHR 0x0A"

text \<open>\<open>s.startswith(p)\<close>\<close>

fun startswith :: "string \<Rightarrow> string \<Rightarrow> bool" where
  "startswith s [] = True"
| "startswith [] (p # ps) = False"
| "startswith (c # cs) (p # ps) = (c = p \<and> startswith cs ps)"

text \<open>\<open>sub in s\<close>\<close>

fun str_in :: "string \<Rightarrow> string \<Rightarrow> bool" where
  "str_in sub [] = (sub = [])"
| "str_in sub (c # cs) = (startswith (c # cs) sub \<or> str_in sub cs)"

text \<open>
  \<open>s.lower()\<close>. Only the letters A to Z are mapped. Python also lowers non-ASCII
  letters; the two code points whose lower case holds an ASCII letter are U+212A (to k)
  and U+0130 (to i followed by U+0307), and neither can complete one of the keywords
  searched for below, so the searches agree.
\<close>

definition lower_char :: "char \<Rightarrow> char" where
  "lower_char c =
     (case map_of (zip ''ABCDEFGHIJKLMNOPQRSTUVWXYZ'' ''abcdefghijklmnopqrstuvwxyz'') c of
        None \<Rightarrow> c
      | Some d \<Rightarrow> d)"

definition lower :: "string \<Rightarrow> string" where
  "lower s = map lower_char s"

section \<open>The remote transport\<close>

text \<open>
  The SSH library and the machines behind it are outside the program. A session is the
  client object returned by a successful connect; it carries a serial number, because two
  connects to the same host give two client objects. Everything the program does to the
  outside is appended to a log of events, and what the outside answers may depend on all
  that happened before.
\<close>

type_synonym host = string

datatype client = Client (session_id: nat) (client_host: host)

datatype event =
    Opened client
  | ConnectFailed host
  | Exec client string
  | Closed client

datatype connect_result =
    Connected
  | Refused string
  | ConnectRaised

datatype exec_result =
    Output string string
  | ExecRaised string

datatype pyfloat = Finite rat | PosInf | NegInf | NaN

record transport =
  ssh_connect :: "event list \<Rightarrow> host \<Rightarrow> connect_result"
  ssh_exec :: "event list \<Rightarrow> client \<Rightarrow> string \<Rightarrow> exec_result"
  float_of_first_field :: "string \<Rightarrow> pyfloat option"

text \<open>
  \<open>ssh_connect\<close>: \<open>Connected\<close> when \<open>client.connect\<close> returns, \<open>Refused\<close> when it raises
  one of the three exceptions that \<open>get_ssh_client\<close> catches, \<open>ConnectRaised\<close> when it
  raises anything else.
  \<open>ssh_exec\<close>: \<open>Output out err\<close> when \<open>exec_command\<close>, both reads and both decodes
  succeed, \<open>ExecRaised msg\<close> when any of them raises an exception whose text is \<open>msg\<close>.
  \<open>float_of_first_field s\<close> is the value of \<open>float(s.split()[0])\<close>, \<open>None\<close> when that
  expression raises.
\<close>

datatype py_error = IndexError | KeyError | ValueError | TransportError | SystemExit int

section \<open>The installer\<close>

definition get_ssh_client ::
  "transport \<Rightarrow> event list \<Rightarrow> host \<Rightarrow> (py_error + client option) \<times> event list" where
  "get_ssh_client tr evs h =
     (case ssh_connect tr evs h of
        Connected \<Rightarrow>
          (let c = Client (length evs) h in (Inr (Some c), evs @ [Opened c]))
      | Refused msg \<Rightarrow> (Inr None, evs @ [ConnectFailed h])
      | ConnectRaised \<Rightarrow> (Inl TransportError, evs @ [ConnectFailed h]))"

text \<open>The UTF-8 bytes of the fixed prefix of the message built in the handler of
  \<open>execute_command\<close>.\<close>

definition exec_error_prefix :: string where
  "exec_error_prefix =
     [CHR 0xD0, CHR 0x9E, CHR 0xD1, CHR 0x88, CHR 0xD0, CHR 0xB8, CHR 0xD0, CHR 0xB1,
      CHR 0xD0, CHR 0xBA, CHR 0xD0, CHR 0xB0, CHR 0x20, CHR 0xD0, CHR 0xB2, CHR 0xD1,
      CHR 0x8B, CHR 0xD0, CHR 0xBF, CHR 0xD0, CHR 0xBE, CHR 0xD0, CHR 0xBB, CHR 0xD0,
      CHR 0xBD, CHR 0xD0, CHR 0xB5, CHR 0xD0, CHR 0xBD, CHR 0xD0, CHR 0xB8, CHR 0xD1,
      CHR 0x8F, CHR 0x20, CHR 0xD0, CHR 0xBA, CHR 0xD0, CHR 0xBE, CHR 0xD0, CHR 0xBC,
      CHR 0xD0, CHR 0xB0, CHR 0xD0, CHR 0xBD, CHR 0xD0, CHR 0xB4, CHR 0xD1, CHR 0x8B,
      CHR 0x3A, CHR 0x20]"

definition execute_command ::
  "transport \<Rightarrow> event list \<Rightarrow> client \<Rightarrow> string \<Rightarrow> (string \<times> string) \<times> event list" where
  "execute_command tr evs c cmd =
     (case ssh_exec tr evs c cmd of
        Output out err \<Rightarrow> ((out, err), evs @ [Exec c cmd])
      | ExecRaised msg \<Rightarrow> (([], exec_error_prefix @ msg), evs @ [Exec c cmd]))"

definition get_host_load :: "transport \<Rightarrow> event list \<Rightarrow> client \<Rightarrow> pyfloat \<times> event list" where
  "get_host_load tr evs c =
     (case execute_command tr evs c ''cat /proc/loadavg'' of
        ((out, err), evs1) \<Rightarrow>
          (if out \<noteq> [] then
             (case float_of_first_field tr out of
                Some load_avg \<Rightarrow> (load_avg, evs1)
              | None \<Rightarrow> (PosInf, evs1))
           else (PosInf, evs1)))"

definition detect_os :: "transport \<Rightarrow> event list \<Rightarrow> client \<Rightarrow> string \<times> event list" where
  "detect_os tr evs c =
     (case execute_command tr evs c ''cat /etc/os-release'' of
        ((out, err), evs1) \<Rightarrow>
          if str_in ''debian'' (lower out) then (''debian'', evs1)
          else if str_in ''centos'' (lower out) \<or> str_in ''almalinux'' (lower out)
                  \<or> str_in ''rhel'' (lower out) then (''centos'', evs1)
          else
            (case execute_command tr evs1 c ''which apt-get'' of
               ((out2, err2), evs2) \<Rightarrow>
                 if out2 \<noteq> [] \<and> \<not> startswith out2 ''which:'' then (''debian'', evs2)
                 else
                   (case execute_command tr evs2 c ''which yum'' of
                      ((out3, err3), evs3) \<Rightarrow>
                        if out3 \<noteq> [] \<and> \<not> startswith out3 ''which:'' then (''centos'', evs3)
                        else (''unknown'', evs3))))"

text \<open>The two command lists of \<open>install_postgresql\<close>.\<close>

definition debian_commands :: "string list" where
  "debian_commands =
     [''apt-get update'',
      ''apt-get install -y postgresql postgresql-contrib'',
      ''systemctl status postgresql'']"

definition centos_commands :: "string list" where
  "centos_commands =
     [''dnf install -y https://download.postgresql.org/pub/repos/yum/reporpms/EL-8-x86_64/pgdg-redhat-repo-latest.noarch.rpm'',
      ''dnf -qy module disable postgresql'',
      ''dnf install -y postgresql14-server'',
      ''systemctl enable postgresql-14'',
      ''/usr/pgsql-14/bin/postgresql-14-setup initdb'',
      ''systemctl start postgresql-14'',
      ''systemctl status postgresql-14'']"

text \<open>The \<open>for cmd in commands\<close> loop; its body is the same in both branches.\<close>

fun run_commands :: "transport \<Rightarrow> client \<Rightarrow> string list \<Rightarrow> event list \<Rightarrow> bool \<times> event list" where
  "run_commands tr c [] evs = (True, evs)"
| "run_commands tr c (cmd # cmds) evs =
     (case execute_command tr evs c cmd of
        ((out, err), evs1) \<Rightarrow>
          if str_in ''failed'' (lower err) \<or> str_in ''error'' (lower err) then (False, evs1)
          else run_commands tr c cmds evs1)"

definition install_postgresql ::
  "transport \<Rightarrow> event list \<Rightarrow> client \<Rightarrow> string \<Rightarrow> bool \<times> event list" where
  "install_postgresql tr evs c os_type =
     (if os_type = ''debian'' then run_commands tr c debian_commands evs
      else if os_type = ''centos'' then run_commands tr c centos_commands evs
      else (False, evs))"

text \<open>The command texts of \<open>configure_postgresql\<close>, as the f-strings build them.\<close>

definition listen_cmd :: "string \<Rightarrow> string" where
  "listen_cmd postgresql_conf_path =
     ''sed -i '' @ [dq] @ ''s/#listen_addresses = '' @ [sq] @ ''localhost'' @ [sq]
       @ ''/listen_addresses = '' @ [sq] @ ''*'' @ [sq] @ ''/g'' @ [dq] @ '' ''
       @ postgresql_conf_path"

definition backup_cmd :: "string \<Rightarrow> string" where
  "backup_cmd pg_hba_path = ''cp '' @ pg_hba_path @ '' '' @ pg_hba_path @ ''.bak''"

definition append_cmd :: "string \<Rightarrow> host \<Rightarrow> string" where
  "append_cmd pg_hba_path other_host =
     ''cat <<EOF >> '' @ pg_hba_path @ [nl]
       @ ''# Allow user '' @ [dq] @ ''student'' @ [dq] @ '' from the other server'' @ [nl]
       @ ''host    all             student         '' @ other_host @ ''/32            md5'' @ [nl]
       @ ''# Allow connections from all addresses'' @ [nl]
       @ ''host    all             all             0.0.0.0/0                 md5'' @ [nl]
       @ ''EOF''"

definition create_user_cmd :: string where
  "create_user_cmd =
     [nl] @ ''su - postgres -c '' @ [dq] @ ''psql -c '' @ [bs, dq]
       @ ''CREATE USER student WITH PASSWORD '' @ [sq] @ ''StrongPassword123!'' @ [sq] @ '';''
       @ [bs, dq, dq] @ '' '' @ [nl]
       @ ''su - postgres -c '' @ [dq] @ ''psql -c '' @ [bs, dq]
       @ ''ALTER USER student CREATEDB;'' @ [bs, dq, dq] @ '' '' @ [nl]"

definition config_paths :: "string \<Rightarrow> (string \<times> string \<times> string) option" where
  "config_paths os_type =
     (if os_type = ''debian'' then
        Some (''/etc/postgresql/14/main/pg_hba.conf'',
              ''/etc/postgresql/14/main/postgresql.conf'',
              ''systemctl restart postgresql'')
      else if os_type = ''centos'' then
        Some (''/var/lib/pgsql/14/data/pg_hba.conf'',
              ''/var/lib/pgsql/14/data/postgresql.conf'',
              ''systemctl restart postgresql-14'')
      else None)"

definition configure_postgresql ::
  "transport \<Rightarrow> event list \<Rightarrow> client \<Rightarrow> string \<Rightarrow> host \<Rightarrow> bool \<times> event list" where
  "configure_postgresql tr evs c os_type other_host =
     (case config_paths os_type of
        None \<Rightarrow> (False, evs)
      | Some (pg_hba_path, postgresql_conf_path, restart_cmd) \<Rightarrow>
          (case execute_command tr evs c (listen_cmd postgresql_conf_path) of
             (r1, evs1) \<Rightarrow>
          (case execute_command tr evs1 c (backup_cmd pg_hba_path) of
             (r2, evs2) \<Rightarrow>
          (case execute_command tr evs2 c (append_cmd pg_hba_path other_host) of
             (r3, evs3) \<Rightarrow>
          (case execute_command tr evs3 c create_user_cmd of
             ((out, err), evs4) \<Rightarrow>
               if str_in ''ERROR'' err then (False, evs4)
               else
                 (case execute_command tr evs4 c restart_cmd of
                    (r5, evs5) \<Rightarrow> (True, evs5)))))))"


definition test_cmd :: string where
  "test_cmd = ''su - postgres -c '' @ [dq] @ ''psql -c '' @ [bs, dq]
     @ ''SELECT 1 as test_connection;'' @ [bs, dq, dq] @ '' ''"

definition test_postgresql ::
  "transport \<Rightarrow> event list \<Rightarrow> client \<Rightarrow> string \<Rightarrow> bool \<times> event list" where
  "test_postgresql tr evs c os_type =
     (case execute_command tr evs c test_cmd of
        ((out, err), evs1) \<Rightarrow>
          if str_in ''test_connection'' out \<and> str_in ''1'' out then (True, evs1)
          else (False, evs1))"

section \<open>Host selection and the run\<close>

text \<open>
  A load is a Python float. Only its order matters here: a finite float is a rational
  number, and the comparison \<open><\<close> of two floats is the one of the rationals, extended
  by the two infinities, and false whenever one side is not a number.
\<close>

fun float_lt :: "pyfloat \<Rightarrow> pyfloat \<Rightarrow> bool" where
  "float_lt NaN y = False"
| "float_lt x NaN = False"
| "float_lt x NegInf = False"
| "float_lt NegInf y = True"
| "float_lt PosInf y = False"
| "float_lt (Finite a) PosInf = True"
| "float_lt (Finite a) (Finite b) = (a < b)"

text \<open>The comparison \<open><=\<close> of two floats, and the test for a finite float.\<close>

definition float_le :: "pyfloat \<Rightarrow> pyfloat \<Rightarrow> bool" where
  "float_le x y \<longleftrightarrow> x \<noteq> NaN \<and> y \<noteq> NaN \<and> (x = y \<or> float_lt x y)"

fun is_finite :: "pyfloat \<Rightarrow> bool" where
  "is_finite (Finite a) = True"
| "is_finite x = False"

text \<open>
  A Python \<open>dict\<close> keeps its keys in insertion order; assigning to a key that is present
  replaces the value and keeps the key's place.
\<close>

type_synonym ('k, 'v) dict = "('k \<times> 'v) list"

fun dict_set :: "('k, 'v) dict \<Rightarrow> 'k \<Rightarrow> 'v \<Rightarrow> ('k, 'v) dict" where
  "dict_set [] k v = [(k, v)]"
| "dict_set ((k', v') # kvs) k v =
     (if k' = k then (k, v) # kvs else (k', v') # dict_set kvs k v)"

definition dict_get :: "('k, 'v) dict \<Rightarrow> 'k \<Rightarrow> py_error + 'v" where
  "dict_get d k = (case map_of d k of None \<Rightarrow> Inl KeyError | Some v \<Rightarrow> Inr v)"

text \<open>
  \<open>min(loads, key=loads.get)\<close>: the keys are visited in insertion order, the first is the
  candidate, and a later key replaces the candidate only when its value is strictly less.
  Each key is visited together with the value \<open>loads.get\<close> finds for it.
\<close>

fun min_scan :: "'k \<times> pyfloat \<Rightarrow> ('k \<times> pyfloat) list \<Rightarrow> 'k \<times> pyfloat" where
  "min_scan best [] = best"
| "min_scan best (item # rest) =
     min_scan (if float_lt (snd item) (snd best) then item else best) rest"

definition min_by_load :: "('k, pyfloat) dict \<Rightarrow> py_error + 'k" where
  "min_by_load loads =
     (case loads of
        [] \<Rightarrow> Inl ValueError
      | first # rest \<Rightarrow> Inr (fst (min_scan first rest)))"

text \<open>The first loop of \<open>run\<close>: connect to each host and sample its load.\<close>

fun connect_hosts ::
  "transport \<Rightarrow> host list \<Rightarrow> (host, client) dict \<Rightarrow> (host, pyfloat) dict \<Rightarrow> event list
     \<Rightarrow> (py_error + (host, client) dict \<times> (host, pyfloat) dict) \<times> event list" where
  "connect_hosts tr [] clients loads evs = (Inr (clients, loads), evs)"
| "connect_hosts tr (h # hs) clients loads evs =
     (case get_ssh_client tr evs h of
        (Inl e, evs1) \<Rightarrow> (Inl e, evs1)
      | (Inr None, evs1) \<Rightarrow> connect_hosts tr hs clients loads evs1
      | (Inr (Some c), evs1) \<Rightarrow>
          (case get_host_load tr evs1 c of
             (load, evs2) \<Rightarrow>
               connect_hosts tr hs (dict_set clients h c) (dict_set loads h load) evs2))"

text \<open>
  \<open>run\<close>. A raised exception that nothing catches ends the run with \<open>Inl\<close>. The progress
  lines it prints are left out. \<open>clients[target_host]\<close> is looked up once.
\<close>

definition run :: "transport \<Rightarrow> host list \<Rightarrow> event list \<Rightarrow> (py_error + bool) \<times> event list" where
  "run tr hosts evs =
     (case connect_hosts tr hosts [] [] evs of
        (Inl e, evs1) \<Rightarrow> (Inl e, evs1)
      | (Inr (clients, loads), evs1) \<Rightarrow>
          if clients = [] then (Inr False, evs1)
          else
            (case min_by_load loads of
               Inl e \<Rightarrow> (Inl e, evs1)
             | Inr target_host \<Rightarrow>
            (case filter (\<lambda>h. h \<noteq> target_host) hosts of
               [] \<Rightarrow> (Inl IndexError, evs1)
             | other_host # others \<Rightarrow>
            (case dict_get clients target_host of
               Inl e \<Rightarrow> (Inl e, evs1)
             | Inr c \<Rightarrow>
            (case detect_os tr evs1 c of
               (os_type, evs2) \<Rightarrow>
                 if os_type = ''unknown'' then (Inr False, evs2)
                 else
            (case install_postgresql tr evs2 c os_type of
               (installed, evs3) \<Rightarrow>
                 if \<not> installed then (Inr False, evs3)
                 else
            (case configure_postgresql tr evs3 c os_type other_host of
               (configured, evs4) \<Rightarrow>
                 if \<not> configured then (Inr False, evs4)
                 else
            (case test_postgresql tr evs4 c os_type of
               (tested, evs5) \<Rightarrow>
                 if \<not> tested then (Inr False, evs5)
                 else (Inr True, evs5 @ map (\<lambda>kv. Closed (snd kv)) clients)))))))))"

text \<open>The sessions a log shows as opened, and as closed.\<close>

fun opened_sessions :: "event list \<Rightarrow> client list" where
  "opened_sessions [] = []"
| "opened_sessions (Opened c # evs) = c # opened_sessions evs"
| "opened_sessions (e # evs) = opened_sessions evs"

fun closed_sessions :: "event list \<Rightarrow> client list" where
  "closed_sessions [] = []"
| "closed_sessions (Closed c # evs) = c # closed_sessions evs"
| "closed_sessions (e # evs) = closed_sessions evs"

fun executed_commands :: "event list \<Rightarrow> (client \<times> string) list" where
  "executed_commands [] = []"
| "executed_commands (Exec c cmd # evs) = (c, cmd) # executed_commands evs"
| "executed_commands (e # evs) = executed_commands evs"

section \<open>The entry point\<close>

text \<open>\<open>s.split(',')\<close>\<close>

fun split_comma :: "string \<Rightarrow> string list" where
  "split_comma [] = [[]]"
| "split_comma (c # cs) =
     (if c = CHR '','' then [] # split_comma cs
      else (case split_comma cs of
              [] \<Rightarrow> [[c]]
            | w # ws \<Rightarrow> (c # w) # ws))"

text \<open>
  \<open>s.strip()\<close> removes from both ends every character that \<open>str.isspace\<close> accepts:
  U+0009 to U+000D, U+001C to U+0020, U+0085, U+00A0, U+1680, U+2000 to U+200A, U+2028,
  U+2029, U+202F, U+205F and U+3000. \<open>space_codes\<close> lists their UTF-8 encodings. Every
  multi-byte encoding starts with a lead byte, which is no continuation byte, so a prefix
  or a suffix of the bytes that equals one of the encodings is that character.
\<close>

definition space_codes :: "string list" where
  "space_codes =
     [[CHR 0x09], [CHR 0x0A], [CHR 0x0B], [CHR 0x0C], [CHR 0x0D],
      [CHR 0x1C], [CHR 0x1D], [CHR 0x1E], [CHR 0x1F], [CHR 0x20],
      [CHR 0xC2, CHR 0x85], [CHR 0xC2, CHR 0xA0],
      [CHR 0xE1, CHR 0x9A, CHR 0x80],
      [CHR 0xE2, CHR 0x80, CHR 0x80], [CHR 0xE2, CHR 0x80, CHR 0x81],
      [CHR 0xE2, CHR 0x80, CHR 0x82], [CHR 0xE2, CHR 0x80, CHR 0x83],
      [CHR 0xE2, CHR 0x80, CHR 0x84], [CHR 0xE2, CHR 0x80, CHR 0x85],
      [CHR 0xE2, CHR 0x80, CHR 0x86], [CHR 0xE2, CHR 0x80, CHR 0x87],
      [CHR 0xE2, CHR 0x80, CHR 0x88], [CHR 0xE2, CHR 0x80, CHR 0x89],
      [CHR 0xE2, CHR 0x80, CHR 0x8A],
      [CHR 0xE2, CHR 0x80, CHR 0xA8], [CHR 0xE2, CHR 0x80, CHR 0xA9],
      [CHR 0xE2, CHR 0x80, CHR 0xAF], [CHR 0xE2, CHR 0x81, CHR 0x9F],
      [CHR 0xE3, CHR 0x80, CHR 0x80]]"

text \<open>Remove leading occurrences of the given codes, as long as one is a prefix.\<close>

function drop_codes :: "string list \<Rightarrow> string \<Rightarrow> string" where
  "drop_codes codes s =
     (case find (\<lambda>w. w \<noteq> [] \<and> startswith s w) codes of
        None \<Rightarrow> s
      | Some w \<Rightarrow> drop_codes codes (drop (length w) s))"
  by pat_completeness auto
termination
proof (relation "measure (\<lambda>(codes, s). length s)")
  show "wf (measure (\<lambda>(codes, s). length s))" by simp
next
  fix codes :: "string list" and s w :: string
  assume "find (\<lambda>w. w \<noteq> [] \<and> startswith s w) codes = Some w"
  then have "w \<noteq> [] \<and> startswith s w" by (auto simp: find_Some_iff)
  then have "s \<noteq> []" "0 < length w" by (cases s; cases w; simp)+
  then show "((codes, drop (length w) s), (codes, s)) \<in> measure (\<lambda>(codes, s). length s)"
    by simp
qed

definition lstrip :: "string \<Rightarrow> string" where
  "lstrip s = drop_codes space_codes s"

definition rstrip :: "string \<Rightarrow> string" where
  "rstrip s = rev (drop_codes (map rev space_codes) (rev s))"

definition strip :: "string \<Rightarrow> string" where
  "strip s = rstrip (lstrip s)"

text \<open>
  \<open>parser.parse_args()\<close> is the standard library's. On a command line it accepts it
  returns the namespace, here the host argument and the optional key path. Otherwise it
  ends the process itself by raising \<open>SystemExit\<close>: with status 0 after printing the help,
  with status 2 after reporting a usage error. Which command line has which outcome is
  the library's affair and a parameter here.
\<close>

datatype parse_outcome = Parsed string "string option" | HelpExit | UsageError

text \<open>
  \<open>main\<close>. The key path only selects the credentials the transport connects with, so
  the transport is given as a function of it.
\<close>

definition main ::
  "(string list \<Rightarrow> parse_outcome) \<Rightarrow> (string option \<Rightarrow> transport) \<Rightarrow> string list
     \<Rightarrow> (py_error + int) \<times> event list" where
  "main parse_args transport_for argv =
     (case parse_args argv of
        HelpExit \<Rightarrow> (Inl (SystemExit 0), [])
      | UsageError \<Rightarrow> (Inl (SystemExit 2), [])
      | Parsed hosts_arg key \<Rightarrow>
          (let hosts = map strip (split_comma hosts_arg) in
           if length hosts \<noteq> 2 then (Inr 1, [])
           else
             (case run (transport_for key) hosts [] of
                (Inl e, evs) \<Rightarrow> (Inl e, evs)
              | (Inr success, evs) \<Rightarrow> (Inr (if success then 0 else 1), evs))))"

text \<open>
  \<open>sys.exit(main())\<close>: the exit code is the returned number. A \<open>SystemExit\<close> raised
  inside \<open>main\<close> ends the process with its status; when anything else is raised, the
  interpreter prints the traceback and exits with code 1.
\<close>

definition exit_code :: "py_error + int \<Rightarrow> int" where
  "exit_code r =
     (case r of
        Inl (SystemExit status) \<Rightarrow> status
      | Inl e \<Rightarrow> 1
      | Inr n \<Rightarrow> n)"

section \<open>Observations used in the statements\<close>

text \<open>
  The failure test of the install loop, and the error text that step \<open>i\<close> of a command
  list returns when the steps before it have been issued on the same session.
\<close>

definition has_failure_marker :: "string \<Rightarrow> bool" where
  "has_failure_marker err \<longleftrightarrow> str_in ''failed'' (lower err) \<or> str_in ''error'' (lower err)"

definition stderr_of_step :: "transport \<Rightarrow> event list \<Rightarrow> client \<Rightarrow> string list \<Rightarrow> nat \<Rightarrow> string" where
  "stderr_of_step tr evs c cmds i =
     snd (fst (execute_command tr (evs @ map (Exec c) (take i cmds)) c (cmds ! i)))"

section \<open>Transports for examples\<close>

text \<open>
  A transport given by tables: the hosts that accept a connection, the output of each
  command on each host (a command not listed prints nothing), and the floats that the
  first fields of load outputs parse to.
\<close>

definition table_transport ::
  "host list \<Rightarrow> ((host \<times> string) \<times> (string \<times> string)) list \<Rightarrow> (string \<times> pyfloat) list
     \<Rightarrow> transport" where
  "table_transport up answers floats =
     \<lparr> ssh_connect = (\<lambda>evs h. if h \<in> set up then Connected else Refused ''timed out''),
       ssh_exec = (\<lambda>evs c cmd.
          case map_of answers (client_host c, cmd) of
            None \<Rightarrow> Output [] []
          | Some (out, err) \<Rightarrow> Output out err),
       float_of_first_field = map_of floats \<rparr>"

text \<open>
  Two hosts, \<open>h1\<close> (Debian, load 0.50) and \<open>h2\<close> (AlmaLinux, load 1.20), on which every
  step goes well. \<open>demo_with extra\<close> lets the answers of \<open>extra\<close> take precedence.
\<close>

definition demo_answers :: "((host \<times> string) \<times> (string \<times> string)) list" where
  "demo_answers =
     [((''h1'', ''cat /proc/loadavg''), (''0.50 0.41 0.30 1/123 4567'', [])),
      ((''h2'', ''cat /proc/loadavg''), (''1.20 1.00 0.90 2/140 8910'', [])),
      ((''h1'', ''cat /etc/os-release''), (''ID=debian'', [])),
      ((''h2'', ''cat /etc/os-release''), (''ID=almalinux'', [])),
      ((''h1'', test_cmd), ('' test_connection '' @ [nl] @ ''               1'', [])),
      ((''h2'', test_cmd), ('' test_connection '' @ [nl] @ ''               1'', []))]"

definition demo_floats :: "(string \<times> pyfloat) list" where
  "demo_floats =
     [(''0.50 0.41 0.30 1/123 4567'', Finite (1 / 2)),
      (''1.20 1.00 0.90 2/140 8910'', Finite (6 / 5))]"

definition demo_with :: "((host \<times> string) \<times> (string \<times> string)) list \<Rightarrow> transport" where
  "demo_with extra = table_transport [''h1'', ''h2''] (extra @ demo_answers) demo_floats"

text \<open>The same two hosts, but the load file cannot be read on either.\<close>

definition no_load_transport :: transport where
  "no_load_transport =
     demo_with [((''h1'', ''cat /proc/loadavg''), ([], [])),
                ((''h2'', ''cat /proc/loadavg''), ([], []))]"

text \<open>The first host prints a load that parses to a float that is not a number.\<close>

definition nan_load_transport :: transport where
  "nan_load_transport =
     table_transport [''h1'', ''h2'']
       (((''h1'', ''cat /proc/loadavg''), (''nan 0.41 0.30 1/123 4567'', [])) # demo_answers)
       ((''nan 0.41 0.30 1/123 4567'', NaN) # demo_floats)"

text \<open>
  The outcomes of the argument parser on the command lines of the examples (any other
  command line is no example), and the transport for each key path.
\<close>

definition demo_parse_args :: "string list \<Rightarrow> parse_outcome" where
  "demo_parse_args argv =
     (case map_of
        [([''--help''], HelpExit),
         ([], UsageError),
         ([''h1, h2''], Parsed ''h1, h2'' None),
         ([''h1'' @ [CHR 0xC2, CHR 0xA0] @ '','' @ [CHR 0xE2, CHR 0x80, CHR 0x83] @ ''h2''],
            Parsed (''h1'' @ [CHR 0xC2, CHR 0xA0] @ '','' @ [CHR 0xE2, CHR 0x80, CHR 0x83]
                      @ ''h2'') None),
         ([''h1''], Parsed ''h1'' None),
         ([''h1,h1'', ''--key'', ''/root/.ssh/id_ed25519''],
            Parsed ''h1,h1'' (Some ''/root/.ssh/id_ed25519''))] argv of
        None \<Rightarrow> UsageError
      | Some outcome \<Rightarrow> outcome)"

definition demo_transport_for :: "string option \<Rightarrow> transport" where
  "demo_transport_for key = demo_with []"

section \<open>Facts about text\<close>

lemma startswith_iff: "startswith s p \<longleftrightarrow> (\<exists>rest. s = p @ rest)"
  by (induction s p rule: startswith.induct) auto

lemma str_in_iff: "str_in sub s \<longleftrightarrow> (\<exists>pre post. s = pre @ sub @ post)"
proof (induction s)
  case Nil
  then show ?case by auto
next
  case (Cons c cs)
  show ?case
  proof
    assume "str_in sub (c # cs)"
    then consider "startswith (c # cs) sub" | "str_in sub cs" by auto
    then show "\<exists>pre post. c # cs = pre @ sub @ post"
    proof cases
      case 1
      then obtain rest where "c # cs = sub @ rest" using startswith_iff by blast
      then have "c # cs = [] @ sub @ rest" by simp
      then show ?thesis by blast
    next
      case 2
      then obtain pre post where "cs = pre @ sub @ post" using Cons.IH by blast
      then have "c # cs = (c # pre) @ sub @ post" by simp
      then show ?thesis by blast
    qed
  next
    assume "\<exists>pre post. c # cs = pre @ sub @ post"
    then obtain pre post where eq: "c # cs = pre @ sub @ post" by blast
    show "str_in sub (c # cs)"
    proof (cases pre)
      case Nil
      with eq have "startswith (c # cs) sub" using startswith_iff by auto
      then show ?thesis by simp
    next
      case (Cons p pre')
      with eq have "cs = pre' @ sub @ post" by simp
      then have "str_in sub cs" using Cons.IH by blast
      then show ?thesis by simp
    qed
  qed
qed

section \<open>Facts about the transport\<close>

lemma execute_command_log: "snd (execute_command tr evs c cmd) = evs @ [Exec c cmd]"
  by (simp add: execute_command_def split: exec_result.splits)

lemma execute_command_eq:
  "execute_command tr evs c cmd = (fst (execute_command tr evs c cmd), evs @ [Exec c cmd])"
  by (metis execute_command_log prod.collapse)

lemma str_in_map_iff:
  "str_in k (map f s) \<longleftrightarrow> (\<exists>pre mid post. s = pre @ mid @ post \<and> map f mid = k)"
  unfolding str_in_iff
  by (metis append_eq_map_conv map_append)

lemma str_in_lower_iff:
  "str_in k (lower s) \<longleftrightarrow> (\<exists>pre mid post. s = pre @ mid @ post \<and> lower mid = k)"
  unfolding lower_def by (rule str_in_map_iff)

lemma run_commands_step:
  "run_commands tr c (cmd # cmds) evs =
     (if has_failure_marker (snd (fst (execute_command tr evs c cmd)))
      then (False, evs @ [Exec c cmd])
      else run_commands tr c cmds (evs @ [Exec c cmd]))"
proof -
  obtain out err where x: "execute_command tr evs c cmd = ((out, err), evs @ [Exec c cmd])"
    by (metis execute_command_eq prod.collapse)
  show ?thesis by (simp add: x has_failure_marker_def)
qed

lemma stderr_of_step_Suc:
  "stderr_of_step tr evs c (cmd # cmds) (Suc i) = stderr_of_step tr (evs @ [Exec c cmd]) c cmds i"
  by (simp add: stderr_of_step_def)

lemma stderr_of_step_0:
  "stderr_of_step tr evs c (cmd # cmds) 0 = snd (fst (execute_command tr evs c cmd))"
  by (simp add: stderr_of_step_def)

lemma run_commands_first_failure:
  "i < length cmds \<Longrightarrow> has_failure_marker (stderr_of_step tr evs c cmds i)
     \<Longrightarrow> \<forall>j<i. \<not> has_failure_marker (stderr_of_step tr evs c cmds j)
     \<Longrightarrow> run_commands tr c cmds evs = (False, evs @ map (Exec c) (take (Suc i) cmds))"
proof (induction cmds arbitrary: i evs)
  case Nil
  then show ?case by simp
next
  case (Cons cmd cmds)
  show ?case
  proof (cases i)
    case 0
    with Cons.prems show ?thesis
      by (simp add: run_commands_step stderr_of_step_0 del: run_commands.simps)
  next
    case (Suc k)
    from Cons.prems(3) Suc have clean: "\<not> has_failure_marker (snd (fst (execute_command tr evs c cmd)))"
      using stderr_of_step_0 by (metis zero_less_Suc)
    have k: "k < length cmds" using Cons.prems(1) Suc by simp
    have mk: "has_failure_marker (stderr_of_step tr (evs @ [Exec c cmd]) c cmds k)"
      using Cons.prems(2) Suc by (simp add: stderr_of_step_Suc)
    have before: "\<forall>j<k. \<not> has_failure_marker (stderr_of_step tr (evs @ [Exec c cmd]) c cmds j)"
    proof (intro allI impI)
      fix j assume "j < k"
      then have "Suc j < i" using Suc by simp
      then have "\<not> has_failure_marker (stderr_of_step tr evs c (cmd # cmds) (Suc j))"
        using Cons.prems(3) by blast
      then show "\<not> has_failure_marker (stderr_of_step tr (evs @ [Exec c cmd]) c cmds j)"
        by (simp add: stderr_of_step_Suc)
    qed
    have "run_commands tr c cmds (evs @ [Exec c cmd])
            = (False, (evs @ [Exec c cmd]) @ map (Exec c) (take (Suc k) cmds))"
      using Cons.IH [OF k mk before] .
    with clean Suc show ?thesis
      by (simp add: run_commands_step del: run_commands.simps)
  qed
qed

lemma run_commands_no_failure:
  "\<forall>j<length cmds. \<not> has_failure_marker (stderr_of_step tr evs c cmds j)
     \<Longrightarrow> run_commands tr c cmds evs = (True, evs @ map (Exec c) cmds)"
proof (induction cmds arbitrary: evs)
  case Nil
  then show ?case by simp
next
  case (Cons cmd cmds)
  have clean: "\<not> has_failure_marker (snd (fst (execute_command tr evs c cmd)))"
    using Cons.prems stderr_of_step_0 by (metis length_greater_0_conv list.distinct(1))
  have rest: "\<forall>j<length cmds. \<not> has_failure_marker (stderr_of_step tr (evs @ [Exec c cmd]) c cmds j)"
  proof (intro allI impI)
    fix j assume "j < length cmds"
    then have "Suc j < length (cmd # cmds)" by simp
    then have "\<not> has_failure_marker (stderr_of_step tr evs c (cmd # cmds) (Suc j))"
      using Cons.prems by blast
    then show "\<not> has_failure_marker (stderr_of_step tr (evs @ [Exec c cmd]) c cmds j)"
      by (simp add: stderr_of_step_Suc)
  qed
  show ?case
    using Cons.IH [OF rest] clean by (simp add: run_commands_step del: run_commands.simps)
qed

lemma execute_command_ex:
  "\<exists>out err. execute_command tr evs c cmd = ((out, err), evs @ [Exec c cmd])"
  by (metis execute_command_eq prod.collapse)

lemma configure_postgresql_unfold:
  assumes "config_paths os_type = Some (pg_hba_path, postgresql_conf_path, restart_cmd)"
  shows "configure_postgresql tr evs c os_type other_host =
     (if str_in ''ERROR'' (snd (fst (execute_command tr
             (evs @ [Exec c (listen_cmd postgresql_conf_path),
                     Exec c (backup_cmd pg_hba_path),
                     Exec c (append_cmd pg_hba_path other_host)]) c create_user_cmd)))
      then (False, evs @ [Exec c (listen_cmd postgresql_conf_path),
                          Exec c (backup_cmd pg_hba_path),
                          Exec c (append_cmd pg_hba_path other_host),
                          Exec c create_user_cmd])
      else (True, evs @ [Exec c (listen_cmd postgresql_conf_path),
                         Exec c (backup_cmd pg_hba_path),
                         Exec c (append_cmd pg_hba_path other_host),
                         Exec c create_user_cmd,
                         Exec c restart_cmd]))"
proof -
  let ?L = "Exec c (listen_cmd postgresql_conf_path)"
  let ?B = "Exec c (backup_cmd pg_hba_path)"
  let ?A = "Exec c (append_cmd pg_hba_path other_host)"
  let ?U = "Exec c create_user_cmd"
  obtain o1 e1 where x1: "execute_command tr evs c (listen_cmd postgresql_conf_path)
      = ((o1, e1), evs @ [?L])"
    using execute_command_ex by blast
  obtain o2 e2 where x2: "execute_command tr (evs @ [?L]) c (backup_cmd pg_hba_path)
      = ((o2, e2), evs @ [?L, ?B])"
    using execute_command_ex [of tr "evs @ [?L]" c "backup_cmd pg_hba_path"] by auto
  obtain o3 e3 where x3: "execute_command tr (evs @ [?L, ?B]) c (append_cmd pg_hba_path other_host)
      = ((o3, e3), evs @ [?L, ?B, ?A])"
    using execute_command_ex [of tr "evs @ [?L, ?B]" c "append_cmd pg_hba_path other_host"] by auto
  obtain o4 e4 where x4: "execute_command tr (evs @ [?L, ?B, ?A]) c create_user_cmd
      = ((o4, e4), evs @ [?L, ?B, ?A, ?U])"
    using execute_command_ex [of tr "evs @ [?L, ?B, ?A]" c create_user_cmd] by auto
  obtain o5 e5 where x5: "execute_command tr (evs @ [?L, ?B, ?A, ?U]) c restart_cmd
      = ((o5, e5), evs @ [?L, ?B, ?A, ?U, Exec c restart_cmd])"
    using execute_command_ex [of tr "evs @ [?L, ?B, ?A, ?U]" c restart_cmd] by auto
  show ?thesis
    by (simp add: configure_postgresql_def assms x1 x2 x3 x4 x5)
qed

lemma config_paths_supported:
  "os_type = ''debian'' \<or> os_type = ''centos''
     \<Longrightarrow> \<exists>hba conf restart. config_paths os_type = Some (hba, conf, restart)"
  by (auto simp: config_paths_def)

section \<open>Facts about selection\<close>

lemma float_lt_trans: "float_lt x y \<Longrightarrow> float_lt y z \<Longrightarrow> float_lt x z"
  by (cases x; cases y; cases z) auto

lemma float_lt_le_trans: "float_lt x y \<Longrightarrow> float_le y z \<Longrightarrow> float_lt x z"
  by (auto simp: float_le_def intro: float_lt_trans)

lemma float_not_lt_le: "x \<noteq> NaN \<Longrightarrow> y \<noteq> NaN \<Longrightarrow> \<not> float_lt y x \<Longrightarrow> float_le x y"
  by (cases x; cases y) (auto simp: float_le_def)

lemma float_lt_irrefl: "\<not> float_lt x x"
  by (cases x) auto

lemma float_lt_PosInf: "\<not> float_lt PosInf y"
  by (cases y) auto

lemma min_scan_invariant:
  assumes "\<forall>kv \<in> set (seen_before @ [best] @ seen_after @ rest). snd kv \<noteq> NaN"
    and "\<forall>kv \<in> set seen_before. float_lt (snd best) (snd kv)"
    and "\<forall>kv \<in> set seen_after. float_le (snd best) (snd kv)"
  shows "\<exists>pre post. seen_before @ [best] @ seen_after @ rest = pre @ [min_scan best rest] @ post
           \<and> (\<forall>kv \<in> set pre. float_lt (snd (min_scan best rest)) (snd kv))
           \<and> (\<forall>kv \<in> set post. float_le (snd (min_scan best rest)) (snd kv))"
  using assms
proof (induction rest arbitrary: best seen_before seen_after)
  case Nil
  then show ?case by auto
next
  case (Cons item rest)
  show ?case
  proof (cases "float_lt (snd item) (snd best)")
    case True
    have nn: "\<forall>kv \<in> set ((seen_before @ [best] @ seen_after) @ [item] @ [] @ rest). snd kv \<noteq> NaN"
      using Cons.prems(1) by auto
    have b: "\<forall>kv \<in> set (seen_before @ [best] @ seen_after). float_lt (snd item) (snd kv)"
    proof
      fix kv assume "kv \<in> set (seen_before @ [best] @ seen_after)"
      then consider "kv \<in> set seen_before" | "kv = best" | "kv \<in> set seen_after" by auto
      then show "float_lt (snd item) (snd kv)"
      proof cases
        case 1
        then have "float_lt (snd best) (snd kv)" using Cons.prems(2) by blast
        then show ?thesis using True by (rule_tac float_lt_trans)
      next
        case 2
        then show ?thesis using True by simp
      next
        case 3
        then have "float_le (snd best) (snd kv)" using Cons.prems(3) by blast
        then show ?thesis using True by (rule_tac float_lt_le_trans)
      qed
    qed
    have a: "\<forall>kv \<in> set []. float_le (snd item) (snd kv)" by simp
    from Cons.IH [OF nn b a] True show ?thesis by simp
  next
    case False
    have nn: "\<forall>kv \<in> set (seen_before @ [best] @ (seen_after @ [item]) @ rest). snd kv \<noteq> NaN"
      using Cons.prems(1) by auto
    have "snd best \<noteq> NaN" "snd item \<noteq> NaN" using Cons.prems(1) by auto
    with False have "float_le (snd best) (snd item)" by (simp add: float_not_lt_le)
    then have a: "\<forall>kv \<in> set (seen_after @ [item]). float_le (snd best) (snd kv)"
      using Cons.prems(3) by auto
    from Cons.IH [OF nn Cons.prems(2) a] False show ?thesis by simp
  qed
qed

lemma min_scan_mem: "min_scan best rest \<in> set (best # rest)"
  by (induction rest arbitrary: best) (auto split: if_splits)

lemma min_by_load_mem:
  assumes "min_by_load loads = Inr t"
  shows "t \<in> fst ` set loads"
proof (cases loads)
  case Nil
  with assms show ?thesis by (simp add: min_by_load_def)
next
  case (Cons first rest)
  with assms have "t = fst (min_scan first rest)" by (simp add: min_by_load_def)
  moreover have "min_scan first rest \<in> set loads" using Cons min_scan_mem by metis
  ultimately show ?thesis by (rule_tac image_eqI)
qed

lemma min_by_load_error: "min_by_load loads = Inl e \<Longrightarrow> loads = []"
  by (simp add: min_by_load_def split: list.splits)

lemma dict_set_keys:
  "map fst (dict_set d k v) = (if k \<in> set (map fst d) then map fst d else map fst d @ [k])"
  by (induction d) (force split: if_splits)+

lemma connect_hosts_keys:
  assumes "connect_hosts tr hosts clients loads evs = (Inr (clients', loads'), evs')"
    and "map fst clients = map fst loads"
  shows "map fst clients' = map fst loads'
         \<and> (\<exists>ks. map fst loads' = map fst loads @ ks \<and> subseq ks hosts)"
  using assms
proof (induction hosts arbitrary: clients loads evs)
  case Nil
  then show ?case by simp
next
  case (Cons h hs)
  obtain r evs1 where g: "get_ssh_client tr evs h = (r, evs1)" by (cases "get_ssh_client tr evs h")
  show ?case
  proof (cases r)
    case (Inl e)
    with g Cons.prems show ?thesis by simp
  next
    case (Inr oc)
    show ?thesis
    proof (cases oc)
      case None
      with g Inr Cons.prems have "connect_hosts tr hs clients loads evs1 = (Inr (clients', loads'), evs')"
        by simp
      from Cons.IH [OF this Cons.prems(2)] show ?thesis by auto
    next
      case (Some c)
      obtain load evs2 where l: "get_host_load tr evs1 c = (load, evs2)"
        by (cases "get_host_load tr evs1 c")
      from g Inr Some l Cons.prems
      have step: "connect_hosts tr hs (dict_set clients h c) (dict_set loads h load) evs2
                    = (Inr (clients', loads'), evs')"
        by simp
      have keys: "map fst (dict_set clients h c) = map fst (dict_set loads h load)"
        using Cons.prems(2) by (simp add: dict_set_keys)
      from Cons.IH [OF step keys]
      obtain ks where ks: "map fst clients' = map fst loads'"
        "map fst loads' = map fst (dict_set loads h load) @ ks" "subseq ks hs"
        by blast
      show ?thesis
      proof (cases "h \<in> set (map fst loads)")
        case True
        with ks show ?thesis by (auto simp: dict_set_keys)
      next
        case False
        with ks have "map fst loads' = map fst loads @ (h # ks)" "subseq (h # ks) (h # hs)"
          by (auto simp: dict_set_keys)
        with ks(1) show ?thesis by blast
      qed
    qed
  qed
qed

lemma connect_hosts_refused:
  "\<forall>h \<in> set hosts. \<forall>es. \<exists>msg. ssh_connect tr es h = Refused msg
     \<Longrightarrow> connect_hosts tr hosts clients loads evs
           = (Inr (clients, loads), evs @ map ConnectFailed hosts)"
proof (induction hosts arbitrary: evs)
  case Nil
  then show ?case by simp
next
  case (Cons h hs)
  from Cons.prems have "\<forall>es. \<exists>msg. ssh_connect tr es h = Refused msg" by simp
  then obtain msg where "ssh_connect tr evs h = Refused msg" by blast
  then have g: "get_ssh_client tr evs h = (Inr None, evs @ [ConnectFailed h])"
    by (simp add: get_ssh_client_def)
  have "connect_hosts tr hs clients loads (evs @ [ConnectFailed h])
          = (Inr (clients, loads), (evs @ [ConnectFailed h]) @ map ConnectFailed hs)"
    using Cons.IH Cons.prems by simp
  with g show ?case by simp
qed

lemma min_scan_no_smaller:
  "\<forall>kv \<in> set rest. \<not> float_lt (snd kv) (snd best) \<Longrightarrow> min_scan best rest = best"
  by (induction rest) auto

section \<open>Facts about the run\<close>

lemma split_comma_nonempty: "split_comma s \<noteq> []"
  by (induction s) (auto split: list.splits)

lemma length_split_comma: "length (split_comma s) = Suc (count_list s (CHR '',''))"
  using split_comma_nonempty by (induction s) (auto split: list.splits)

lemma connect_hosts_error:
  "connect_hosts tr hosts clients loads evs = (Inl e, evs') \<Longrightarrow> e = TransportError"
proof (induction hosts arbitrary: clients loads evs)
  case Nil
  then show ?case by simp
next
  case (Cons h hs)
  then show ?case
    by (auto simp: get_ssh_client_def Let_def
             split: connect_result.splits prod.splits sum.splits option.splits)
qed

lemma dict_get_error: "dict_get d k = Inl e \<Longrightarrow> k \<notin> fst ` set d"
  by (auto simp: dict_get_def map_of_eq_None_iff split: option.splits)

lemma run_IndexError_iff:
  "fst (run tr hosts evs) = Inl IndexError \<longleftrightarrow>
     (\<exists>clients loads evs1 t. connect_hosts tr hosts [] [] evs = (Inr (clients, loads), evs1)
        \<and> clients \<noteq> [] \<and> min_by_load loads = Inr t \<and> filter (\<lambda>h. h \<noteq> t) hosts = [])"
proof -
  obtain r evs1 where c: "connect_hosts tr hosts [] [] evs = (r, evs1)"
    by (cases "connect_hosts tr hosts [] [] evs")
  show ?thesis
  proof (cases r)
    case (Inl e)
    with c have "e = TransportError" using connect_hosts_error by blast
    with c Inl show ?thesis by (simp add: run_def)
  next
    case (Inr cl)
    obtain clients loads where cl: "cl = (clients, loads)" by (cases cl)
    from connect_hosts_keys [OF c [unfolded Inr cl]]
    have keys: "map fst clients = map fst loads" by simp
    show ?thesis
    proof (cases "clients = []")
      case True
      with c Inr cl show ?thesis by (simp add: run_def)
    next
      case False
      then have "loads \<noteq> []" using keys by auto
      then obtain t where t: "min_by_load loads = Inr t"
        by (cases loads) (auto simp: min_by_load_def)
      then have "t \<in> fst ` set loads" by (rule min_by_load_mem)
      then have "t \<in> fst ` set clients" using keys by (metis list.set_map)
      then have "\<nexists>e. dict_get clients t = Inl e" using dict_get_error [of clients t] by auto
      then obtain c0 where g: "dict_get clients t = Inr c0"
        by (cases "dict_get clients t") auto
      show ?thesis
      proof (cases "filter (\<lambda>h. h \<noteq> t) hosts")
        case Nil
        with c Inr cl False t show ?thesis by (simp add: run_def)
      next
        case (Cons other others)
        with c Inr cl False t g show ?thesis
          by (simp add: run_def split: prod.splits)
      qed
    qed
  qed
qed

lemma run_True_iff:
  "fst (run tr hosts evs) = Inr True \<longleftrightarrow>
     (\<exists>clients loads evs1 t other others c os evs2 evs3 evs4.
        connect_hosts tr hosts [] [] evs = (Inr (clients, loads), evs1) \<and> clients \<noteq> []
        \<and> min_by_load loads = Inr t \<and> filter (\<lambda>h. h \<noteq> t) hosts = other # others
        \<and> dict_get clients t = Inr c
        \<and> detect_os tr evs1 c = (os, evs2) \<and> os \<noteq> ''unknown''
        \<and> install_postgresql tr evs2 c os = (True, evs3)
        \<and> configure_postgresql tr evs3 c os other = (True, evs4)
        \<and> fst (test_postgresql tr evs4 c os))"
  unfolding run_def
  by (auto split: prod.splits sum.splits list.splits if_splits)

lemma closed_sessions_append:
  "closed_sessions (xs @ ys) = closed_sessions xs @ closed_sessions ys"
  by (induction xs rule: closed_sessions.induct) auto

lemma execute_command_snd:
  "execute_command tr evs c cmd = (r, evs') \<Longrightarrow> evs' = evs @ [Exec c cmd]"
  using execute_command_log [of tr evs c cmd] by simp

lemma execute_command_closed:
  "execute_command tr evs c cmd = (r, evs') \<Longrightarrow> closed_sessions evs' = closed_sessions evs"
  by (auto dest!: execute_command_snd simp: closed_sessions_append)

lemma get_host_load_closed:
  "get_host_load tr evs c = (l, evs') \<Longrightarrow> closed_sessions evs' = closed_sessions evs"
  by (auto simp: get_host_load_def split: prod.splits if_splits option.splits
           dest: execute_command_closed)

lemma get_ssh_client_closed:
  "get_ssh_client tr evs h = (r, evs') \<Longrightarrow> closed_sessions evs' = closed_sessions evs"
  by (auto simp: get_ssh_client_def Let_def closed_sessions_append split: connect_result.splits)

lemma connect_hosts_closed:
  "connect_hosts tr hosts clients loads evs = (r, evs')
     \<Longrightarrow> closed_sessions evs' = closed_sessions evs"
proof (induction hosts arbitrary: clients loads evs)
  case Nil
  then show ?case by simp
next
  case (Cons h hs)
  obtain g evs1 where g: "get_ssh_client tr evs h = (g, evs1)"
    by (cases "get_ssh_client tr evs h")
  then have c1: "closed_sessions evs1 = closed_sessions evs" by (rule get_ssh_client_closed)
  show ?case
  proof (cases g)
    case (Inl e)
    with g Cons.prems c1 show ?thesis by simp
  next
    case (Inr oc)
    show ?thesis
    proof (cases oc)
      case None
      with g Inr Cons.prems have "connect_hosts tr hs clients loads evs1 = (r, evs')" by simp
      from Cons.IH [OF this] c1 show ?thesis by simp
    next
      case (Some c)
      obtain l evs2 where l: "get_host_load tr evs1 c = (l, evs2)"
        by (cases "get_host_load tr evs1 c")
      then have c2: "closed_sessions evs2 = closed_sessions evs1" by (rule get_host_load_closed)
      from g Inr Some l Cons.prems
      have "connect_hosts tr hs (dict_set clients h c) (dict_set loads h l) evs2 = (r, evs')"
        by simp
      from Cons.IH [OF this] c1 c2 show ?thesis by simp
    qed
  qed
qed

lemma detect_os_closed:
  "detect_os tr evs c = (os, evs') \<Longrightarrow> closed_sessions evs' = closed_sessions evs"
  by (auto simp: detect_os_def split: prod.splits if_splits dest!: execute_command_closed)

lemma run_commands_closed:
  "run_commands tr c cmds evs = (ok, evs') \<Longrightarrow> closed_sessions evs' = closed_sessions evs"
proof (induction cmds arbitrary: evs)
  case Nil
  then show ?case by simp
next
  case (Cons cmd cmds)
  show ?case
  proof (cases "has_failure_marker (snd (fst (execute_command tr evs c cmd)))")
    case True
    with Cons.prems show ?thesis
      by (auto simp: run_commands_step closed_sessions_append simp del: run_commands.simps)
  next
    case False
    with Cons.prems have "run_commands tr c cmds (evs @ [Exec c cmd]) = (ok, evs')"
      by (simp add: run_commands_step del: run_commands.simps)
    from Cons.IH [OF this] show ?thesis by (simp add: closed_sessions_append)
  qed
qed

lemma install_postgresql_closed:
  "install_postgresql tr evs c os = (ok, evs') \<Longrightarrow> closed_sessions evs' = closed_sessions evs"
  by (auto simp: install_postgresql_def split: if_splits dest: run_commands_closed)

lemma configure_postgresql_closed:
  "configure_postgresql tr evs c os other = (ok, evs')
     \<Longrightarrow> closed_sessions evs' = closed_sessions evs"
proof (cases "config_paths os")
  case None
  then show "configure_postgresql tr evs c os other = (ok, evs')
     \<Longrightarrow> closed_sessions evs' = closed_sessions evs"
    by (simp add: configure_postgresql_def)
next
  case (Some p)
  obtain hba conf restart where "p = (hba, conf, restart)" by (cases p)
  with Some have p: "config_paths os = Some (hba, conf, restart)" by simp
  show "configure_postgresql tr evs c os other = (ok, evs')
     \<Longrightarrow> closed_sessions evs' = closed_sessions evs"
    unfolding configure_postgresql_unfold [OF p]
    by (auto simp: closed_sessions_append split: if_splits)
qed

lemma test_postgresql_closed:
  "test_postgresql tr evs c os = (ok, evs') \<Longrightarrow> closed_sessions evs' = closed_sessions evs"
  by (auto simp: test_postgresql_def split: prod.splits if_splits dest!: execute_command_closed)

lemma run_failure_closes_nothing:
  assumes "fst (run tr hosts evs) \<noteq> Inr True"
  shows "closed_sessions (snd (run tr hosts evs)) = closed_sessions evs"
proof -
  obtain r evs1 where c: "connect_hosts tr hosts [] [] evs = (r, evs1)"
    by (cases "connect_hosts tr hosts [] [] evs")
  have k1: "closed_sessions evs1 = closed_sessions evs"
    by (rule connect_hosts_closed [OF c])
  show ?thesis
  proof (cases r)
    case (Inl e)
    with c k1 show ?thesis by (simp add: run_def)
  next
    case (Inr cl)
    obtain clients loads where cl: "cl = (clients, loads)" by (cases cl)
    note c' = c [unfolded Inr cl]
    show ?thesis
    proof (cases "clients = []")
      case True
      with c' k1 show ?thesis by (simp add: run_def)
    next
      case False
      show ?thesis
      proof (cases "min_by_load loads")
        case (Inl e)
        with c' k1 False show ?thesis by (simp add: run_def)
      next
        case t: (Inr t)
        show ?thesis
        proof (cases "filter (\<lambda>h. h \<noteq> t) hosts")
          case Nil
          with c' k1 False t show ?thesis by (simp add: run_def)
        next
          case (Cons other others)
          show ?thesis
          proof (cases "dict_get clients t")
            case (Inl e)
            with c' k1 False t Cons show ?thesis by (simp add: run_def)
          next
            case g: (Inr c0)
            obtain os evs2 where d: "detect_os tr evs1 c0 = (os, evs2)"
              by (cases "detect_os tr evs1 c0")
            obtain ok3 evs3 where i: "install_postgresql tr evs2 c0 os = (ok3, evs3)"
              by (cases "install_postgresql tr evs2 c0 os")
            obtain ok4 evs4 where f: "configure_postgresql tr evs3 c0 os other = (ok4, evs4)"
              by (cases "configure_postgresql tr evs3 c0 os other")
            obtain ok5 evs5 where v: "test_postgresql tr evs4 c0 os = (ok5, evs5)"
              by (cases "test_postgresql tr evs4 c0 os")
            have k: "closed_sessions evs2 = closed_sessions evs"
              "closed_sessions evs3 = closed_sessions evs"
              "closed_sessions evs4 = closed_sessions evs"
              "closed_sessions evs5 = closed_sessions evs"
              using k1 detect_os_closed [OF d] install_postgresql_closed [OF i]
                configure_postgresql_closed [OF f] test_postgresql_closed [OF v]
              by simp_all
            have "run tr hosts evs =
                (if os = ''unknown'' then (Inr False, evs2)
                 else if \<not> ok3 then (Inr False, evs3)
                 else if \<not> ok4 then (Inr False, evs4)
                 else if \<not> ok5 then (Inr False, evs5)
                 else (Inr True, evs5 @ map (\<lambda>kv. Closed (snd kv)) clients))"
              using c' False t Cons g d i f v by (simp add: run_def)
            with assms k show ?thesis by (simp split: if_splits)
          qed
        qed
      qed
    qed
  qed
qed

lemma run_outcomes:
  "fst (run tr hosts evs) \<in> {Inr True, Inr False, Inl IndexError, Inl TransportError}"
proof -
  obtain r evs1 where c: "connect_hosts tr hosts [] [] evs = (r, evs1)"
    by (cases "connect_hosts tr hosts [] [] evs")
  show ?thesis
  proof (cases r)
    case (Inl e)
    with c have "e = TransportError" using connect_hosts_error by blast
    with c Inl show ?thesis by (simp add: run_def)
  next
    case (Inr cl)
    obtain clients loads where cl: "cl = (clients, loads)" by (cases cl)
    from connect_hosts_keys [OF c [unfolded Inr cl]]
    have keys: "map fst clients = map fst loads" by simp
    show ?thesis
    proof (cases "clients = []")
      case True
      with c Inr cl show ?thesis by (simp add: run_def)
    next
      case False
      then have "loads \<noteq> []" using keys by auto
      then obtain t where t: "min_by_load loads = Inr t"
        by (cases loads) (auto simp: min_by_load_def)
      then have "t \<in> fst ` set loads" by (rule min_by_load_mem)
      then have "t \<in> fst ` set clients" using keys by (metis list.set_map)
      then have "\<nexists>e. dict_get clients t = Inl e" using dict_get_error [of clients t] by auto
      then obtain c0 where g: "dict_get clients t = Inr c0"
        by (cases "dict_get clients t") auto
      show ?thesis
      proof (cases "filter (\<lambda>h. h \<noteq> t) hosts")
        case Nil
        with c Inr cl False t show ?thesis by (simp add: run_def)
      next
        case (Cons other others)
        with c Inr cl False t g show ?thesis
          by (simp add: run_def split: prod.splits)
      qed
    qed
  qed
qed

section \<open>Host selection\<close>

text \<open>
  C2, as stated, fails: a sample that is not a number is never replaced as the candidate
  of the scan, since nothing compares less than it. With such a sample on the first host
  and a finite sample on the second, the first host is chosen, though its sample is not
  the minimum; the run then goes on with the first host.
\<close>

theorem min_by_load_nan_counterexample:
  "is_finite (Finite (1 / 2))
   \<and> min_by_load [(''h1'', NaN), (''h2'', Finite (1 / 2))] = Inr ''h1''
   \<and> \<not> float_le NaN (Finite (1 / 2))
   \<and> fst (connect_hosts nan_load_transport [''h1'', ''h2''] [] [] [])
     = Inr ([(''h1'', Client 0 ''h1''), (''h2'', Client 2 ''h2'')],
            [(''h1'', NaN), (''h2'', Finite (6 / 5))])
   \<and> take 1 (drop 2 (executed_commands (snd (run nan_load_transport [''h1'', ''h2''] []))))
     = [(Client 0 ''h1'', ''cat /etc/os-release'')]"
  by code_simp

text \<open>
  C2, amended: for every mapping of hosts to sampled loads that contains a finite load
  and no sample that is not a number, \<open>min_by_load\<close> returns a host of the mapping such
  that every host before it in the mapping's order has a strictly greater load and every
  host after it has a load at least as great: the first host with the minimal load. The
  chosen load is not the infinity of a failed probe. The order of the mapping built by the
  connection loop is the order of the input hosts, and it holds exactly the connected
  hosts.
\<close>

theorem min_by_load_first_minimum:
  "((\<exists>kv \<in> set loads. is_finite (snd kv)) \<and> (\<forall>kv \<in> set loads. snd kv \<noteq> NaN)
      \<longrightarrow> (\<exists>pre t l post. loads = pre @ [(t, l)] @ post \<and> min_by_load loads = Inr t
             \<and> (\<forall>kv \<in> set pre. float_lt l (snd kv))
             \<and> (\<forall>kv \<in> set post. float_le l (snd kv))
             \<and> l \<noteq> PosInf))
   \<and> (connect_hosts tr hosts [] [] evs = (Inr (clients, sampled), evs1)
      \<longrightarrow> subseq (map fst sampled) hosts \<and> map fst clients = map fst sampled)"
proof (intro conjI impI)
  assume h: "(\<exists>kv \<in> set loads. is_finite (snd kv)) \<and> (\<forall>kv \<in> set loads. snd kv \<noteq> NaN)"
  then obtain first rest where lr: "loads = first # rest" by (cases loads) auto
  have "\<forall>kv \<in> set ([] @ [first] @ [] @ rest). snd kv \<noteq> NaN" using h lr by simp
  from min_scan_invariant [OF this]
  obtain pre post where d: "first # rest = pre @ [min_scan first rest] @ post"
    "\<forall>kv \<in> set pre. float_lt (snd (min_scan first rest)) (snd kv)"
    "\<forall>kv \<in> set post. float_le (snd (min_scan first rest)) (snd kv)"
    by auto
  obtain t l where m: "min_scan first rest = (t, l)" by (cases "min_scan first rest")
  from h obtain kv where kv: "kv \<in> set loads" "is_finite (snd kv)" by blast
  have "l \<noteq> PosInf"
  proof
    assume inf: "l = PosInf"
    from kv lr d(1) m consider "kv \<in> set pre" | "kv = (t, l)" | "kv \<in> set post"
      by (metis Un_iff append_Cons append_Nil set_ConsD set_append)
    then show False
    proof cases
      case 1
      with d(2) m inf show False by (cases kv) (auto simp: float_lt_PosInf)
    next
      case 2
      with kv(2) inf show False by simp
    next
      case 3
      with d(3) m inf have "float_le PosInf (snd kv)" by auto
      with kv(2) show False by (cases "snd kv") (auto simp: float_le_def)
    qed
  qed
  moreover have "loads = pre @ [(t, l)] @ post" using d(1) m lr by simp
  moreover have "min_by_load loads = Inr t" using m lr by (simp add: min_by_load_def)
  moreover have "\<forall>kv \<in> set pre. float_lt l (snd kv)" using d(2) m by simp
  moreover have "\<forall>kv \<in> set post. float_le l (snd kv)" using d(3) m by simp
  ultimately show "\<exists>pre t l post. loads = pre @ [(t, l)] @ post \<and> min_by_load loads = Inr t
             \<and> (\<forall>kv \<in> set pre. float_lt l (snd kv))
             \<and> (\<forall>kv \<in> set post. float_le l (snd kv))
             \<and> l \<noteq> PosInf"
    by blast
next
  assume "connect_hosts tr hosts [] [] evs = (Inr (clients, sampled), evs1)"
  from connect_hosts_keys [OF this] show "subseq (map fst sampled) hosts" by auto
next
  assume "connect_hosts tr hosts [] [] evs = (Inr (clients, sampled), evs1)"
  from connect_hosts_keys [OF this] show "map fst clients = map fst sampled" by auto
qed
theorem min_by_load_first_minimum_witness:
  "(\<exists>pre t l post.
         [(''h1'', Finite (6 / 5)), (''h2'', Finite (1 / 2)), (''h3'', Finite (1 / 2)),
          (''h4'', PosInf)] = pre @ [(t, l)] @ post
         \<and> min_by_load [(''h1'', Finite (6 / 5)), (''h2'', Finite (1 / 2)),
                         (''h3'', Finite (1 / 2)), (''h4'', PosInf)] = Inr t
         \<and> (\<forall>kv \<in> set pre. float_lt l (snd kv))
         \<and> (\<forall>kv \<in> set post. float_le l (snd kv))
         \<and> l \<noteq> PosInf)
   \<and> min_by_load [(''h1'', Finite (6 / 5)), (''h2'', Finite (1 / 2)),
                   (''h3'', Finite (1 / 2)), (''h4'', PosInf)] = Inr ''h2''
   \<and> connect_hosts (demo_with []) [''h1'', ''h2''] [] [] []
       = (Inr ([(''h1'', Client 0 ''h1''), (''h2'', Client 2 ''h2'')],
               [(''h1'', Finite (1 / 2)), (''h2'', Finite (6 / 5))]),
          [Opened (Client 0 ''h1''), Exec (Client 0 ''h1'') ''cat /proc/loadavg'',
           Opened (Client 2 ''h2''), Exec (Client 2 ''h2'') ''cat /proc/loadavg''])
   \<and> subseq (map fst [(''h1'', Finite (1 / 2)), (''h2'', Finite (6 / 5 :: rat))]) [''h1'', ''h2'']"
proof -
  let ?L = "[(''h1'', Finite (6 / 5)), (''h2'', Finite (1 / 2)), (''h3'', Finite (1 / 2)),
             (''h4'', PosInf)]"
  have h: "(\<exists>kv \<in> set ?L. is_finite (snd kv)) \<and> (\<forall>kv \<in> set ?L. snd kv \<noteq> NaN)"
    by simp
  have c: "connect_hosts (demo_with []) [''h1'', ''h2''] [] [] []
       = (Inr ([(''h1'', Client 0 ''h1''), (''h2'', Client 2 ''h2'')],
               [(''h1'', Finite (1 / 2)), (''h2'', Finite (6 / 5))]),
          [Opened (Client 0 ''h1''), Exec (Client 0 ''h1'') ''cat /proc/loadavg'',
           Opened (Client 2 ''h2''), Exec (Client 2 ''h2'') ''cat /proc/loadavg''])"
    by code_simp
  have m: "min_by_load ?L = Inr ''h2''"
    by (simp add: min_by_load_def)
  note t = min_by_load_first_minimum [where loads = ?L and tr = "demo_with []"
      and hosts = "[''h1'', ''h2'']" and evs = "[]"
      and clients = "[(''h1'', Client 0 ''h1''), (''h2'', Client 2 ''h2'')]"
      and sampled = "[(''h1'', Finite (1 / 2)), (''h2'', Finite (6 / 5))]"
      and ?evs1.0 = "[Opened (Client 0 ''h1''), Exec (Client 0 ''h1'') ''cat /proc/loadavg'',
           Opened (Client 2 ''h2''), Exec (Client 2 ''h2'') ''cat /proc/loadavg'']"]
  from t h have first: "\<exists>pre t l post. ?L = pre @ [(t, l)] @ post \<and> min_by_load ?L = Inr t
         \<and> (\<forall>kv \<in> set pre. float_lt l (snd kv))
         \<and> (\<forall>kv \<in> set post. float_le l (snd kv))
         \<and> l \<noteq> PosInf"
    by blast
  from t c have second: "subseq (map fst [(''h1'', Finite (1 / 2)), (''h2'', Finite (6 / 5 :: rat))])
      [''h1'', ''h2'']"
    by blast
  show ?thesis
    using first m c second by blast
qed

text \<open>
  C1, as stated, fails: on two connected hosts whose load probes both give infinity the
  run does not stop. It selects the first host, reads its metadata file, and here goes on
  to success.
\<close>

theorem all_loads_infinite_counterexample:
  "fst (connect_hosts no_load_transport [''h1'', ''h2''] [] [] [])
     = Inr ([(''h1'', Client 0 ''h1''), (''h2'', Client 2 ''h2'')],
            [(''h1'', PosInf), (''h2'', PosInf)])
   \<and> fst (run no_load_transport [''h1'', ''h2''] []) = Inr True
   \<and> take 1 (drop 2 (executed_commands (snd (run no_load_transport [''h1'', ''h2''] []))))
     = [(Client 0 ''h1'', ''cat /etc/os-release'')]"
  by code_simp

text \<open>
  C1, amended: if no host accepts a connection, \<open>run\<close> returns \<open>False\<close> having issued no
  command at all, so before any detection and without a target. When loads were sampled
  and every one is infinity, selection does not fail: it chooses the first sampled host.
\<close>

theorem run_fails_without_connection:
  "((\<forall>h \<in> set hosts. \<forall>es. \<exists>msg. ssh_connect tr es h = Refused msg)
      \<longrightarrow> run tr hosts evs = (Inr False, evs @ map ConnectFailed hosts))
   \<and> (loads \<noteq> [] \<and> (\<forall>kv \<in> set loads. snd kv = PosInf)
      \<longrightarrow> min_by_load loads = Inr (fst (hd loads)))"
proof (intro conjI impI)
  assume "\<forall>h \<in> set hosts. \<forall>es. \<exists>msg. ssh_connect tr es h = Refused msg"
  from connect_hosts_refused [OF this]
  show "run tr hosts evs = (Inr False, evs @ map ConnectFailed hosts)"
    by (simp add: run_def)
next
  assume a: "loads \<noteq> [] \<and> (\<forall>kv \<in> set loads. snd kv = PosInf)"
  then obtain first rest where l: "loads = first # rest" by (cases loads) auto
  with a have "\<forall>kv \<in> set rest. \<not> float_lt (snd kv) (snd first)"
    by (simp add: float_lt_PosInf)
  then have "min_scan first rest = first" by (rule min_scan_no_smaller)
  with l show "min_by_load loads = Inr (fst (hd loads))" by (simp add: min_by_load_def)
qed

theorem run_fails_without_connection_witness:
  "run (demo_with []) [''h3'', ''h4''] [] = (Inr False, [ConnectFailed ''h3'', ConnectFailed ''h4''])
   \<and> min_by_load [(''h1'', PosInf), (''h2'', PosInf)] = Inr ''h1''"
proof -
  have h: "\<forall>h \<in> set [''h3'', ''h4'']. \<forall>es. \<exists>msg. ssh_connect (demo_with []) es h = Refused msg"
    by (simp add: demo_with_def table_transport_def)
  have l: "[(''h1'', PosInf), (''h2'', PosInf)] \<noteq> []
      \<and> (\<forall>kv \<in> set [(''h1'', PosInf), (''h2'', PosInf)]. snd kv = PosInf)"
    by simp
  note t = run_fails_without_connection [where hosts = "[''h3'', ''h4'']" and tr = "demo_with []"
      and evs = "[]" and loads = "[(''h1'', PosInf), (''h2'', PosInf)]"]
  from t h have "run (demo_with []) [''h3'', ''h4''] []
      = (Inr False, [] @ map ConnectFailed [''h3'', ''h4''])" by blast
  moreover from t l have "min_by_load [(''h1'', PosInf), (''h2'', PosInf)]
      = Inr (fst (hd [(''h1'', PosInf), (''h2'', PosInf)]))" by blast
  ultimately show ?thesis by simp
qed

section \<open>Operating system detection\<close>

text \<open>
  C4: \<open>detect_os\<close> follows the order of its probes. With the lower-cased content of the
  metadata file: it answers \<open>debian\<close> when the content contains \<open>debian\<close>; otherwise
  \<open>centos\<close> when it contains \<open>centos\<close>, \<open>almalinux\<close> or \<open>rhel\<close>; in both cases the
  metadata read is the only command issued. The two \<open>which\<close> probes are issued exactly
  when the metadata matches neither family, \<open>which yum\<close> only after \<open>which apt-get\<close> found
  nothing. The answer is \<open>unknown\<close> exactly when all four probes fail to match.
\<close>

theorem detect_os_probe_order:
  "let meta = lower (fst (fst (execute_command tr evs c ''cat /etc/os-release'')));
       evs1 = evs @ [Exec c ''cat /etc/os-release''];
       apt = fst (fst (execute_command tr evs1 c ''which apt-get''));
       evs2 = evs1 @ [Exec c ''which apt-get''];
       yum = fst (fst (execute_command tr evs2 c ''which yum''));
       evs3 = evs2 @ [Exec c ''which yum''];
       is_debian = str_in ''debian'' meta;
       is_rhel = (str_in ''centos'' meta \<or> str_in ''almalinux'' meta \<or> str_in ''rhel'' meta);
       has_apt = (apt \<noteq> [] \<and> \<not> startswith apt ''which:'');
       has_yum = (yum \<noteq> [] \<and> \<not> startswith yum ''which:'')
   in (is_debian \<longrightarrow> detect_os tr evs c = (''debian'', evs1))
    \<and> (\<not> is_debian \<and> is_rhel \<longrightarrow> detect_os tr evs c = (''centos'', evs1))
    \<and> (\<not> is_debian \<and> \<not> is_rhel \<and> has_apt \<longrightarrow> detect_os tr evs c = (''debian'', evs2))
    \<and> (\<not> is_debian \<and> \<not> is_rhel \<and> \<not> has_apt \<and> has_yum
          \<longrightarrow> detect_os tr evs c = (''centos'', evs3))
    \<and> (\<not> is_debian \<and> \<not> is_rhel \<and> \<not> has_apt \<and> \<not> has_yum
          \<longrightarrow> detect_os tr evs c = (''unknown'', evs3))
    \<and> (fst (detect_os tr evs c) = ''unknown''
          \<longleftrightarrow> \<not> is_debian \<and> \<not> is_rhel \<and> \<not> has_apt \<and> \<not> has_yum)
    \<and> (snd (detect_os tr evs c) = evs1 \<longleftrightarrow> is_debian \<or> is_rhel)"
proof -
  obtain o1 e1 where x1: "execute_command tr evs c ''cat /etc/os-release''
      = ((o1, e1), evs @ [Exec c ''cat /etc/os-release''])"
    by (metis execute_command_eq prod.collapse)
  obtain o2 e2 where x2: "execute_command tr (evs @ [Exec c ''cat /etc/os-release'']) c ''which apt-get''
      = ((o2, e2), evs @ [Exec c ''cat /etc/os-release''] @ [Exec c ''which apt-get''])"
    by (metis execute_command_eq prod.collapse append.assoc)
  obtain o3 e3 where x3: "execute_command tr (evs @ [Exec c ''cat /etc/os-release'', Exec c ''which apt-get'']) c ''which yum''
      = ((o3, e3), evs @ [Exec c ''cat /etc/os-release'', Exec c ''which apt-get''] @ [Exec c ''which yum''])"
    by (metis execute_command_eq prod.collapse append.assoc)
  show ?thesis
    using x1 x2 x3 by (simp add: detect_os_def Let_def)
qed

theorem detect_os_probe_order_witness:
  "detect_os (table_transport [''h1'']
       [((''h1'', ''cat /etc/os-release''), (''NAME=Debian GNU/Linux'', []))] [])
     [] (Client 0 ''h1'')
     = (''debian'', [Exec (Client 0 ''h1'') ''cat /etc/os-release''])
   \<and> detect_os (table_transport [''h1'']
       [((''h1'', ''cat /etc/os-release''), (''ID_LIKE=RHEL fedora'', []))] [])
     [] (Client 0 ''h1'')
     = (''centos'', [Exec (Client 0 ''h1'') ''cat /etc/os-release''])
   \<and> detect_os (table_transport [''h1'']
       [((''h1'', ''which apt-get''), (''/usr/bin/apt-get'', []))] [])
     [] (Client 0 ''h1'')
     = (''debian'', [Exec (Client 0 ''h1'') ''cat /etc/os-release'',
                     Exec (Client 0 ''h1'') ''which apt-get''])
   \<and> detect_os (table_transport [''h1'']
       [((''h1'', ''which apt-get''), (''which: no apt-get in (/usr/bin)'', [])),
        ((''h1'', ''which yum''), (''/usr/bin/yum'', []))] [])
     [] (Client 0 ''h1'')
     = (''centos'', [Exec (Client 0 ''h1'') ''cat /etc/os-release'',
                     Exec (Client 0 ''h1'') ''which apt-get'',
                     Exec (Client 0 ''h1'') ''which yum''])
   \<and> detect_os (table_transport [''h1''] [] []) [] (Client 0 ''h1'')
     = (''unknown'', [Exec (Client 0 ''h1'') ''cat /etc/os-release'',
                      Exec (Client 0 ''h1'') ''which apt-get'',
                      Exec (Client 0 ''h1'') ''which yum''])"
  using
    detect_os_probe_order [of "table_transport [''h1'']
       [((''h1'', ''cat /etc/os-release''), (''NAME=Debian GNU/Linux'', []))] []" "[]" "Client 0 ''h1''"]
    detect_os_probe_order [of "table_transport [''h1'']
       [((''h1'', ''cat /etc/os-release''), (''ID_LIKE=RHEL fedora'', []))] []" "[]" "Client 0 ''h1''"]
    detect_os_probe_order [of "table_transport [''h1'']
       [((''h1'', ''which apt-get''), (''/usr/bin/apt-get'', []))] []" "[]" "Client 0 ''h1''"]
    detect_os_probe_order [of "table_transport [''h1'']
       [((''h1'', ''which apt-get''), (''which: no apt-get in (/usr/bin)'', [])),
        ((''h1'', ''which yum''), (''/usr/bin/yum'', []))] []" "[]" "Client 0 ''h1''"]
    detect_os_probe_order [of "table_transport [''h1''] [] []" "[]" "Client 0 ''h1''"]
  by (simp add: Let_def table_transport_def execute_command_def lower_def lower_char_def)

section \<open>The install phase\<close>

text \<open>
  C5: for \<open>debian\<close> and for \<open>centos\<close>, \<open>install_postgresql\<close> issues the commands of the
  family's list in order on the session. If step \<open>i\<close> is the first whose error text
  contains \<open>failed\<close> or \<open>error\<close> in any letter case, it returns \<open>False\<close> and has issued
  exactly the steps up to and including \<open>i\<close>. If no step's error text matches, it returns
  \<open>True\<close> and has issued all steps.
\<close>

theorem install_stops_at_first_failure:
  assumes "(os_type, cmds) = (''debian'', debian_commands)
             \<or> (os_type, cmds) = (''centos'', centos_commands)"
  shows "(\<forall>i<length cmds.
            has_failure_marker (stderr_of_step tr evs c cmds i)
            \<and> (\<forall>j<i. \<not> has_failure_marker (stderr_of_step tr evs c cmds j))
            \<longrightarrow> install_postgresql tr evs c os_type
                  = (False, evs @ map (Exec c) (take (Suc i) cmds)))
       \<and> ((\<forall>j<length cmds. \<not> has_failure_marker (stderr_of_step tr evs c cmds j))
            \<longrightarrow> install_postgresql tr evs c os_type = (True, evs @ map (Exec c) cmds))"
proof -
  have eq: "install_postgresql tr evs c os_type = run_commands tr c cmds evs"
    using assms by (auto simp: install_postgresql_def)
  show ?thesis
    unfolding eq using run_commands_first_failure run_commands_no_failure by blast
qed

theorem install_stops_at_first_failure_witness:
  "install_postgresql
     (demo_with [((''h1'', ''apt-get install -y postgresql postgresql-contrib''),
                  ([], ''E: Failed to fetch''))])
     [] (Client 0 ''h1'') ''debian''
     = (False, [Exec (Client 0 ''h1'') ''apt-get update'',
                Exec (Client 0 ''h1'') ''apt-get install -y postgresql postgresql-contrib''])
   \<and> install_postgresql (demo_with []) [] (Client 0 ''h2'') ''centos''
     = (True, map (Exec (Client 0 ''h2'')) centos_commands)"
proof -
  let ?bad = "demo_with [((''h1'', ''apt-get install -y postgresql postgresql-contrib''),
                          ([], ''E: Failed to fetch''))]"
  let ?c1 = "Client 0 ''h1''"
  let ?c2 = "Client 0 ''h2''"
  note defs = stderr_of_step_def has_failure_marker_def execute_command_def demo_with_def
    table_transport_def demo_answers_def test_cmd_def lower_def lower_char_def
  have deb: "(''debian'', debian_commands) = (''debian'', debian_commands)
      \<or> (''debian'', debian_commands) = (''centos'', centos_commands)" by simp
  have cen: "(''centos'', centos_commands) = (''debian'', debian_commands)
      \<or> (''centos'', centos_commands) = (''centos'', centos_commands)" by simp
  have len: "1 < length debian_commands" by (simp add: debian_commands_def)
  have hit: "has_failure_marker (stderr_of_step ?bad [] ?c1 debian_commands 1)"
    by (simp add: defs debian_commands_def)
  have before: "\<forall>j<1. \<not> has_failure_marker (stderr_of_step ?bad [] ?c1 debian_commands j)"
    by (simp add: defs debian_commands_def)
  have clean: "\<forall>j<length centos_commands.
      \<not> has_failure_marker (stderr_of_step (demo_with []) [] ?c2 centos_commands j)"
    by (simp add: defs centos_commands_def eval_nat_numeral All_less_Suc)
  have first: "install_postgresql ?bad [] ?c1 ''debian''
      = (False, [] @ map (Exec ?c1) (take (Suc 1) debian_commands))"
    using install_stops_at_first_failure [OF deb, of ?bad "[]" ?c1] len hit before by blast
  have second: "install_postgresql (demo_with []) [] ?c2 ''centos''
      = (True, [] @ map (Exec ?c2) centos_commands)"
    using install_stops_at_first_failure [OF cen, of "demo_with []" "[]" ?c2] clean by blast
  show ?thesis
    using first second by (simp add: debian_commands_def)
qed

section \<open>The configure phase\<close>

text \<open>
  C6: for \<open>debian\<close> and for \<open>centos\<close>, \<open>configure_postgresql\<close> returns \<open>False\<close> if and
  only if the error text of the role-creation step contains \<open>ERROR\<close> in exactly these
  capital letters. The answers to the listen-address rewrite, the backup, the access-rule
  append and the restart do not enter the result.
\<close>

theorem configure_fails_iff_role_error:
  assumes "os_type = ''debian'' \<or> os_type = ''centos''"
  shows "fst (configure_postgresql tr evs c os_type other_host)
           \<longleftrightarrow> \<not> str_in ''ERROR''
                 (snd (fst (execute_command tr
                    (evs @ [Exec c (listen_cmd (if os_type = ''debian''
                                                then ''/etc/postgresql/14/main/postgresql.conf''
                                                else ''/var/lib/pgsql/14/data/postgresql.conf'')),
                            Exec c (backup_cmd (if os_type = ''debian''
                                                then ''/etc/postgresql/14/main/pg_hba.conf''
                                                else ''/var/lib/pgsql/14/data/pg_hba.conf'')),
                            Exec c (append_cmd (if os_type = ''debian''
                                                then ''/etc/postgresql/14/main/pg_hba.conf''
                                                else ''/var/lib/pgsql/14/data/pg_hba.conf'')
                                               other_host)])
                    c create_user_cmd)))"
proof -
  obtain hba conf restart where p: "config_paths os_type = Some (hba, conf, restart)"
    using config_paths_supported [OF assms] by blast
  have q: "conf = (if os_type = ''debian'' then ''/etc/postgresql/14/main/postgresql.conf''
                   else ''/var/lib/pgsql/14/data/postgresql.conf'')"
     "hba = (if os_type = ''debian'' then ''/etc/postgresql/14/main/pg_hba.conf''
             else ''/var/lib/pgsql/14/data/pg_hba.conf'')"
    using p assms by (auto simp: config_paths_def split: if_splits)
  show ?thesis
    unfolding configure_postgresql_unfold [OF p] q [symmetric] by simp
qed

theorem configure_fails_iff_role_error_witness:
  "\<not> fst (configure_postgresql
        (demo_with [((''h1'', create_user_cmd), ([], ''ERROR:  role exists''))])
        [] (Client 0 ''h1'') ''debian'' ''h2'')
   \<and> fst (configure_postgresql
        (demo_with [((''h2'', create_user_cmd), ([], ''psql: error: connection failed''))])
        [] (Client 0 ''h2'') ''centos'' ''h1'')"
proof -
  note defs = execute_command_def demo_with_def table_transport_def demo_answers_def
    test_cmd_def create_user_cmd_def listen_cmd_def backup_cmd_def append_cmd_def
  have a: "''debian'' = ''debian'' \<or> ''debian'' = ''centos''" by simp
  have b: "''centos'' = ''debian'' \<or> ''centos'' = ''centos''" by simp
  show ?thesis
    using
      configure_fails_iff_role_error [OF a,
        of "demo_with [((''h1'', create_user_cmd), ([], ''ERROR:  role exists''))]"
           "[]" "Client 0 ''h1''" "''h2''"]
      configure_fails_iff_role_error [OF b,
        of "demo_with [((''h2'', create_user_cmd), ([], ''psql: error: connection failed''))]"
           "[]" "Client 0 ''h2''" "''h1''"]
    by (simp add: defs)
qed

text \<open>
  C7: for \<open>debian\<close> and for \<open>centos\<close>, whatever the transport answers, the first three
  commands \<open>configure_postgresql\<close> issues are the listen-address rewrite, then the backup
  of the authentication file, then the append of the access rules, each on the family's
  paths; the events before the call are kept.
\<close>

theorem configure_first_three_commands:
  assumes "os_type = ''debian'' \<or> os_type = ''centos''"
  shows "take 3 (drop (length evs) (snd (configure_postgresql tr evs c os_type other_host)))
           = [Exec c (listen_cmd (if os_type = ''debian''
                                  then ''/etc/postgresql/14/main/postgresql.conf''
                                  else ''/var/lib/pgsql/14/data/postgresql.conf'')),
              Exec c (backup_cmd (if os_type = ''debian''
                                  then ''/etc/postgresql/14/main/pg_hba.conf''
                                  else ''/var/lib/pgsql/14/data/pg_hba.conf'')),
              Exec c (append_cmd (if os_type = ''debian''
                                  then ''/etc/postgresql/14/main/pg_hba.conf''
                                  else ''/var/lib/pgsql/14/data/pg_hba.conf'') other_host)]
         \<and> take (length evs) (snd (configure_postgresql tr evs c os_type other_host)) = evs"
proof -
  obtain hba conf restart where p: "config_paths os_type = Some (hba, conf, restart)"
    using config_paths_supported [OF assms] by blast
  have q: "conf = (if os_type = ''debian'' then ''/etc/postgresql/14/main/postgresql.conf''
                   else ''/var/lib/pgsql/14/data/postgresql.conf'')"
     "hba = (if os_type = ''debian'' then ''/etc/postgresql/14/main/pg_hba.conf''
             else ''/var/lib/pgsql/14/data/pg_hba.conf'')"
    using p assms by (auto simp: config_paths_def split: if_splits)
  show ?thesis
    unfolding configure_postgresql_unfold [OF p] q [symmetric] by simp
qed

theorem configure_first_three_commands_witness:
  "take 3 (drop (length [ConnectFailed ''h2''])
       (snd (configure_postgresql
          (demo_with [((''h1'', create_user_cmd), ([], ''ERROR:  role exists''))])
          [ConnectFailed ''h2''] (Client 0 ''h1'') ''debian'' ''h2'')))
     = [Exec (Client 0 ''h1'') (listen_cmd ''/etc/postgresql/14/main/postgresql.conf''),
        Exec (Client 0 ''h1'') (backup_cmd ''/etc/postgresql/14/main/pg_hba.conf''),
        Exec (Client 0 ''h1'') (append_cmd ''/etc/postgresql/14/main/pg_hba.conf'' ''h2'')]
   \<and> take 3 (drop (length [ConnectFailed ''h1''])
       (snd (configure_postgresql (demo_with [])
          [ConnectFailed ''h1''] (Client 1 ''h2'') ''centos'' ''h1'')))
     = [Exec (Client 1 ''h2'') (listen_cmd ''/var/lib/pgsql/14/data/postgresql.conf''),
        Exec (Client 1 ''h2'') (backup_cmd ''/var/lib/pgsql/14/data/pg_hba.conf''),
        Exec (Client 1 ''h2'') (append_cmd ''/var/lib/pgsql/14/data/pg_hba.conf'' ''h1'')]"
proof -
  have a: "''debian'' = ''debian'' \<or> ''debian'' = ''centos''" by simp
  have b: "''centos'' = ''debian'' \<or> ''centos'' = ''centos''" by simp
  show ?thesis
    using
      configure_first_three_commands [OF a,
        of "[ConnectFailed ''h2'']"
           "demo_with [((''h1'', create_user_cmd), ([], ''ERROR:  role exists''))]"
           "Client 0 ''h1''" "''h2''"]
      configure_first_three_commands [OF b,
        of "[ConnectFailed ''h1'']" "demo_with []" "Client 1 ''h2''" "''h1''"]
    by simp
qed

section \<open>Sessions at the end of the run\<close>

text \<open>
  C3: every session opened during a run is closed when the run ends. On the two hosts
  whose operating system cannot be determined, \<open>run\<close> returns \<open>False\<close> with both
  sessions opened and none closed; the successful run on the same hosts closes both.
  By \<open>run_failure_closes_nothing\<close> no run that ends otherwise than with \<open>True\<close> closes
  any session.
\<close>

theorem sessions_left_open_on_failure:
  "fst (run (table_transport [''h1'', ''h2''] [] []) [''h1'', ''h2''] []) = Inr False
   \<and> opened_sessions (snd (run (table_transport [''h1'', ''h2''] [] []) [''h1'', ''h2''] []))
     = [Client 0 ''h1'', Client 2 ''h2'']
   \<and> closed_sessions (snd (run (table_transport [''h1'', ''h2''] [] []) [''h1'', ''h2''] []))
     = []
   \<and> fst (run (demo_with []) [''h1'', ''h2''] []) = Inr True
   \<and> closed_sessions (snd (run (demo_with []) [''h1'', ''h2''] []))
     = [Client 0 ''h1'', Client 2 ''h2'']"
  by code_simp

section \<open>The verification probe\<close>

text \<open>
  C8: \<open>test_postgresql\<close> returns \<open>True\<close> if and only if the captured standard output of
  the test query contains the label \<open>test_connection\<close> and contains \<open>1\<close>; in particular an
  empty output gives \<open>False\<close>. Exactly the test query is issued.
\<close>

theorem test_postgresql_iff:
  "test_postgresql tr evs c os_type =
     (str_in ''test_connection'' (fst (fst (execute_command tr evs c test_cmd)))
        \<and> str_in ''1'' (fst (fst (execute_command tr evs c test_cmd))),
      evs @ [Exec c test_cmd])
   \<and> (fst (fst (execute_command tr evs c test_cmd)) = []
        \<longrightarrow> fst (test_postgresql tr evs c os_type) = False)"
  by (auto simp: test_postgresql_def execute_command_def split: exec_result.splits)

theorem test_postgresql_iff_witness:
  "fst (fst (execute_command (table_transport [''h1''] [] []) [] (Client 0 ''h1'') test_cmd)) = []
   \<and> fst (test_postgresql (table_transport [''h1''] [] []) [] (Client 0 ''h1'') ''debian'') = False"
  using test_postgresql_iff [of "table_transport [''h1''] [] []" "[]" "Client 0 ''h1''" "''debian''"]
  by (simp add: table_transport_def execute_command_def)

section \<open>The exit code\<close>

text \<open>
  C9, as stated, fails on the command lines that the argument parser does not accept: a
  help request ends the process with exit code 0 although no phase of the workflow has
  run, and a usage error ends it with exit code 2, which is neither 0 nor 1.
\<close>

theorem exit_code_parser_counterexample:
  "exit_code (fst (main demo_parse_args demo_transport_for [''--help''])) = 0
   \<and> snd (main demo_parse_args demo_transport_for [''--help'']) = []
   \<and> exit_code (fst (main demo_parse_args demo_transport_for [])) = 2
   \<and> snd (main demo_parse_args demo_transport_for []) = []"
  by code_simp

text \<open>
  C9, amended: when the argument parser accepts the command line, the exit code is 0
  exactly when the host argument splits into two hosts and \<open>run\<close> on the stripped hosts
  returns \<open>True\<close> (which, by \<open>run_True_iff\<close>, is when connection, selection, detection,
  install, configure and verification all succeed); every other exit code is then 1, also
  when \<open>run\<close> ends by an exception. When the argument does not split into exactly two
  hosts, that is when it does not hold exactly one comma, \<open>main\<close> returns 1 without a
  single event. When the parser ends the process itself, no event happens and the exit
  code is the parser's: 0 after a help request, 2 after a usage error.
\<close>

theorem exit_code_of_main:
  "(parse_args argv = Parsed hosts_arg key \<longrightarrow>
      (exit_code (fst (main parse_args transport_for argv)) = 0
         \<longleftrightarrow> length (split_comma hosts_arg) = 2
             \<and> fst (run (transport_for key) (map strip (split_comma hosts_arg)) [])
                 = Inr True)
      \<and> (exit_code (fst (main parse_args transport_for argv)) \<noteq> 0
           \<longrightarrow> exit_code (fst (main parse_args transport_for argv)) = 1)
      \<and> (length (split_comma hosts_arg) \<noteq> 2
           \<longrightarrow> main parse_args transport_for argv = (Inr 1, []))
      \<and> length (split_comma hosts_arg) = Suc (count_list hosts_arg (CHR '','')))
   \<and> (parse_args argv = HelpExit \<longrightarrow>
        exit_code (fst (main parse_args transport_for argv)) = 0
        \<and> snd (main parse_args transport_for argv) = [])
   \<and> (parse_args argv = UsageError \<longrightarrow>
        exit_code (fst (main parse_args transport_for argv)) = 2
        \<and> snd (main parse_args transport_for argv) = [])"
proof (intro conjI impI)
  assume p: "parse_args argv = Parsed hosts_arg key"
  obtain r evs where r: "run (transport_for key) (map strip (split_comma hosts_arg)) [] = (r, evs)"
    by (cases "run (transport_for key) (map strip (split_comma hosts_arg)) []")
  have no_exit: "r \<noteq> Inl (SystemExit status)" for status
    using run_outcomes [of "transport_for key" "map strip (split_comma hosts_arg)" "[]"] r
    by auto
  show "exit_code (fst (main parse_args transport_for argv)) = 0
         \<longleftrightarrow> length (split_comma hosts_arg) = 2
             \<and> fst (run (transport_for key) (map strip (split_comma hosts_arg)) [])
                 = Inr True"
    using p r no_exit
    by (cases r) (auto simp: main_def exit_code_def Let_def split: py_error.splits)
  show "exit_code (fst (main parse_args transport_for argv)) = 1"
    if "exit_code (fst (main parse_args transport_for argv)) \<noteq> 0"
    using that p r no_exit
    by (cases r) (auto simp: main_def exit_code_def Let_def split: py_error.splits if_splits)
  show "main parse_args transport_for argv = (Inr 1, [])"
    if "length (split_comma hosts_arg) \<noteq> 2"
    using that p by (simp add: main_def)
  show "length (split_comma hosts_arg) = Suc (count_list hosts_arg (CHR '',''))"
    by (rule length_split_comma)
next
  assume "parse_args argv = HelpExit"
  then show "exit_code (fst (main parse_args transport_for argv)) = 0"
    "snd (main parse_args transport_for argv) = []"
    by (simp_all add: main_def exit_code_def)
next
  assume "parse_args argv = UsageError"
  then show "exit_code (fst (main parse_args transport_for argv)) = 2"
    "snd (main parse_args transport_for argv) = []"
    by (simp_all add: main_def exit_code_def)
qed

theorem exit_code_of_main_witness:
  "exit_code (fst (main demo_parse_args demo_transport_for [''h1, h2''])) = 0
   \<and> exit_code (fst (main demo_parse_args demo_transport_for
        [''h1'' @ [CHR 0xC2, CHR 0xA0] @ '','' @ [CHR 0xE2, CHR 0x80, CHR 0x83] @ ''h2''])) = 0
   \<and> main demo_parse_args demo_transport_for [''h1''] = (Inr 1, [])
   \<and> exit_code (fst (main demo_parse_args demo_transport_for
        [''h1,h1'', ''--key'', ''/root/.ssh/id_ed25519''])) = 1
   \<and> exit_code (fst (main demo_parse_args demo_transport_for [''--help''])) = 0
   \<and> snd (main demo_parse_args demo_transport_for [''--help'']) = []
   \<and> exit_code (fst (main demo_parse_args demo_transport_for [])) = 2"
proof -
  let ?nb = "''h1'' @ [CHR 0xC2, CHR 0xA0] @ '','' @ [CHR 0xE2, CHR 0x80, CHR 0x83] @ ''h2''"
  have p1: "demo_parse_args [''h1, h2''] = Parsed ''h1, h2'' None" by code_simp
  have two1: "length (split_comma ''h1, h2'') = 2" by code_simp
  have ok1: "fst (run (demo_transport_for None) (map strip (split_comma ''h1, h2'')) [])
      = Inr True" by code_simp
  have p2: "demo_parse_args [?nb] = Parsed ?nb None" by code_simp
  have two2: "length (split_comma ?nb) = 2" by code_simp
  have ok2: "fst (run (demo_transport_for None) (map strip (split_comma ?nb)) []) = Inr True"
    by code_simp
  have p3: "demo_parse_args [''h1''] = Parsed ''h1'' None" by code_simp
  have one3: "length (split_comma ''h1'') \<noteq> 2" by code_simp
  have p4: "demo_parse_args [''h1,h1'', ''--key'', ''/root/.ssh/id_ed25519'']
      = Parsed ''h1,h1'' (Some ''/root/.ssh/id_ed25519'')" by code_simp
  have crash4: "fst (run (demo_transport_for (Some ''/root/.ssh/id_ed25519''))
      (map strip (split_comma ''h1,h1'')) []) \<noteq> Inr True" by code_simp
  have p5: "demo_parse_args [''--help''] = HelpExit" by code_simp
  have p6: "demo_parse_args [] = UsageError" by code_simp
  note t = exit_code_of_main [where parse_args = demo_parse_args
      and transport_for = demo_transport_for]
  from t [of "[''h1, h2'']" "''h1, h2''" None] p1 two1 ok1
  have a: "exit_code (fst (main demo_parse_args demo_transport_for [''h1, h2''])) = 0"
    by blast
  from t [of "[?nb]" ?nb None] p2 two2 ok2
  have b: "exit_code (fst (main demo_parse_args demo_transport_for [?nb])) = 0"
    by blast
  from t [of "[''h1'']" "''h1''" None] p3 one3
  have c: "main demo_parse_args demo_transport_for [''h1''] = (Inr 1, [])"
    by blast
  from t [of "[''h1,h1'', ''--key'', ''/root/.ssh/id_ed25519'']" "''h1,h1''"
      "Some ''/root/.ssh/id_ed25519''"] p4 crash4
  have d: "exit_code (fst (main demo_parse_args demo_transport_for
        [''h1,h1'', ''--key'', ''/root/.ssh/id_ed25519''])) = 1"
    by blast
  from t [of "[''--help'']"] p5
  have e: "exit_code (fst (main demo_parse_args demo_transport_for [''--help''])) = 0"
    "snd (main demo_parse_args demo_transport_for [''--help'']) = []"
    by blast+
  from t [of "[]"] p6
  have f: "exit_code (fst (main demo_parse_args demo_transport_for [])) = 2"
    by blast
  show ?thesis using a b c d e f by blast
qed

section \<open>The peer host\<close>

text \<open>
  C10: when both supplied hosts are the same string and a connection to it succeeds, the
  list of hosts other than the target is empty and \<open>run\<close> ends with an \<open>IndexError\<close>
  right after the connection loop. When the two hosts differ, \<open>run\<close> never ends with an
  \<open>IndexError\<close>.
\<close>

theorem same_host_index_error:
  "(connect_hosts tr [a, a] [] [] evs = (Inr (clients, loads), evs1) \<and> clients \<noteq> []
      \<longrightarrow> run tr [a, a] evs = (Inl IndexError, evs1))
   \<and> (a \<noteq> b \<longrightarrow> fst (run tr [a, b] evs) \<noteq> Inl IndexError)"
proof (intro conjI impI)
  assume h: "connect_hosts tr [a, a] [] [] evs = (Inr (clients, loads), evs1) \<and> clients \<noteq> []"
  then have c: "connect_hosts tr [a, a] [] [] evs = (Inr (clients, loads), evs1)" by simp
  from connect_hosts_keys [OF c]
  have keys: "map fst clients = map fst loads" "subseq (map fst loads) [a, a]" by auto
  from h keys(1) have "loads \<noteq> []" by auto
  then obtain t where t: "min_by_load loads = Inr t"
    by (cases loads) (auto simp: min_by_load_def)
  then have "t \<in> set (map fst loads)" using min_by_load_mem by fastforce
  with list_emb_set [OF keys(2)] have "t \<in> set [a, a]" by auto
  then have "filter (\<lambda>h. h \<noteq> t) [a, a] = []" by simp
  with c h t show "run tr [a, a] evs = (Inl IndexError, evs1)"
    by (simp add: run_def)
next
  assume ne: "a \<noteq> b"
  show "fst (run tr [a, b] evs) \<noteq> Inl IndexError"
  proof
    assume "fst (run tr [a, b] evs) = Inl IndexError"
    then obtain t where "filter (\<lambda>h. h \<noteq> t) [a, b] = []"
      unfolding run_IndexError_iff by blast
    with ne show False by (auto split: if_splits)
  qed
qed

theorem same_host_index_error_witness:
  "connect_hosts (demo_with []) [''h1'', ''h1''] [] [] []
     = (Inr ([(''h1'', Client 2 ''h1'')], [(''h1'', Finite (1 / 2))]),
        [Opened (Client 0 ''h1''), Exec (Client 0 ''h1'') ''cat /proc/loadavg'',
         Opened (Client 2 ''h1''), Exec (Client 2 ''h1'') ''cat /proc/loadavg''])
   \<and> run (demo_with []) [''h1'', ''h1''] []
     = (Inl IndexError,
        [Opened (Client 0 ''h1''), Exec (Client 0 ''h1'') ''cat /proc/loadavg'',
         Opened (Client 2 ''h1''), Exec (Client 2 ''h1'') ''cat /proc/loadavg''])
   \<and> ''h1'' \<noteq> ''h2''
   \<and> fst (run (demo_with []) [''h1'', ''h2''] []) \<noteq> Inl IndexError"
proof -
  have c: "connect_hosts (demo_with []) [''h1'', ''h1''] [] [] []
     = (Inr ([(''h1'', Client 2 ''h1'')], [(''h1'', Finite (1 / 2))]),
        [Opened (Client 0 ''h1''), Exec (Client 0 ''h1'') ''cat /proc/loadavg'',
         Opened (Client 2 ''h1''), Exec (Client 2 ''h1'') ''cat /proc/loadavg''])"
    by code_simp
  have ne: "''h1'' \<noteq> ''h2''" by simp
  note t1 = same_host_index_error [where tr = "demo_with []" and a = "''h1''" and evs = "[]"
      and clients = "[(''h1'', Client 2 ''h1'')]" and loads = "[(''h1'', Finite (1 / 2))]"
      and ?evs1.0 = "[Opened (Client 0 ''h1''), Exec (Client 0 ''h1'') ''cat /proc/loadavg'',
         Opened (Client 2 ''h1''), Exec (Client 2 ''h1'') ''cat /proc/loadavg'']"
      and b = "''h2''"]
  from t1 c have crash: "run (demo_with []) [''h1'', ''h1''] []
     = (Inl IndexError,
        [Opened (Client 0 ''h1''), Exec (Client 0 ''h1'') ''cat /proc/loadavg'',
         Opened (Client 2 ''h1''), Exec (Client 2 ''h1'') ''cat /proc/loadavg''])"
    by blast
  from t1 ne have ok: "fst (run (demo_with []) [''h1'', ''h2''] []) \<noteq> Inl IndexError"
    by blast
  show ?thesis using c crash ne ok by blast
qed

end
